theory Spec2Isabelle
  imports Complex_Main "HOL-Library.Log_Nat" "HOL-Library.AList" "HOL-Library.Multiset"
begin

section \<open>Exceptions and results\<close>

text \<open>
  The reviewer class \<open>AiCodeReviewer\<close> of \<open>backend/app/code_reviewer.py\<close> is embedded
  function by function. The methods keep their names without the leading underscore. A
  Python exception is a value: a function that can raise returns \<open>exn + 'a\<close> with the
  exception on the left.
\<close>

datatype exn =
    SyntaxError
  | ValueError string
  | OverflowError
  | ZeroDivisionError
  | AttributeError string
  | KeyError string
  | OtherError string

definition rbind :: "exn + 'a \<Rightarrow> ('a \<Rightarrow> exn + 'b) \<Rightarrow> exn + 'b" where
  "rbind m f = (case m of Inl e \<Rightarrow> Inl e | Inr v \<Rightarrow> f v)"

fun map_result :: "('a \<Rightarrow> exn + 'b) \<Rightarrow> 'a list \<Rightarrow> exn + 'b list" where
  "map_result f [] = Inr []"
| "map_result f (x # xs) =
     rbind (f x) (\<lambda>y. rbind (map_result f xs) (\<lambda>ys. Inr (y # ys)))"

section \<open>Strings\<close>

text \<open>
  A Python \<open>str\<close> is a list of code points. The model covers the code points
  U+0000 to U+00FF: one \<open>char\<close> is one code point, \<open>ord c\<close> is its number.
\<close>

definition ord :: "char \<Rightarrow> nat" where
  "ord c = of_char c"

definition newline :: char where
  "newline = CHR 0x0A"

text \<open>\<open>s.split('\n')\<close>: the pieces between the newlines, at least one piece.\<close>

fun split_nl :: "string \<Rightarrow> string list" where
  "split_nl [] = [[]]"
| "split_nl (c # cs) =
     (if c = newline then [] # split_nl cs
      else (case split_nl cs of [] \<Rightarrow> [[c]] | l # ls \<Rightarrow> (c # l) # ls))"

definition startswith :: "string \<Rightarrow> string \<Rightarrow> bool" where
  "startswith s p = (take (length p) s = p)"

text \<open>
  \<open>str.isspace\<close> on one character, which is also what \<open>str.strip()\<close> removes and what
  \<open>\s\<close> matches in a \<open>str\<close> pattern: TAB to CR, FS to US, space, NEL and NBSP.
\<close>

definition is_space :: "char \<Rightarrow> bool" where
  "is_space c =
     (let n = ord c
      in (9 \<le> n \<and> n \<le> 13) \<or> (28 \<le> n \<and> n \<le> 32) \<or> n = 133 \<or> n = 160)"

definition strip :: "string \<Rightarrow> string" where
  "strip s = rev (dropWhile is_space (rev (dropWhile is_space s)))"

definition is_lower_az :: "char \<Rightarrow> bool" where
  "is_lower_az c = (97 \<le> ord c \<and> ord c \<le> 122)"

definition is_upper_az :: "char \<Rightarrow> bool" where
  "is_upper_az c = (65 \<le> ord c \<and> ord c \<le> 90)"

text \<open>\<open>\d\<close> in a \<open>str\<close> pattern: the decimal digits, of which this range has 0 to 9.\<close>

definition is_digit :: "char \<Rightarrow> bool" where
  "is_digit c = (48 \<le> ord c \<and> ord c \<le> 57)"

text \<open>
  \<open>\w\<close> in a \<open>str\<close> pattern: the underscore and every alphanumeric character
  (\<open>str.isalnum\<close>); beyond ASCII these are the letters, the superscript digits and the
  vulgar fractions of the Latin-1 block.
\<close>

definition is_word :: "char \<Rightarrow> bool" where
  "is_word c =
     (let n = ord c
      in is_lower_az c \<or> is_upper_az c \<or> is_digit c \<or> n = 95
         \<or> n = 170 \<or> n = 178 \<or> n = 179 \<or> n = 181 \<or> n = 185 \<or> n = 186
         \<or> n = 188 \<or> n = 189 \<or> n = 190
         \<or> (192 \<le> n \<and> n \<le> 214) \<or> (216 \<le> n \<and> n \<le> 246) \<or> 248 \<le> n)"

text \<open>\<open>str.lower()\<close>: A to Z and the capital letters U+00C0 to U+00DE move up by 32.\<close>

definition lower_char :: "char \<Rightarrow> char" where
  "lower_char c =
     (let n = ord c
      in if is_upper_az c \<or> (192 \<le> n \<and> n \<le> 222 \<and> n \<noteq> 215) then char_of (n + 32) else c)"

definition lower :: "string \<Rightarrow> string" where
  "lower s = map lower_char s"

text \<open>
  \<open>int(s)\<close> on a string of decimal digits: the digits are accumulated from the left.
  The interpreter refuses a string of more than 4300 digits with \<open>ValueError\<close> (the
  default limit on integer string conversion, Python 3.11 and later); the message is
  given without its count of digits.
\<close>

definition int_of_digits :: "string \<Rightarrow> int" where
  "int_of_digits s = foldl (\<lambda>acc c. 10 * acc + int (ord c - 48)) 0 s"

definition max_str_digits :: nat where
  "max_str_digits = 4300"

definition digits_limit_error :: exn where
  "digits_limit_error =
     ValueError ''Exceeds the limit (4300 digits) for integer string conversion''"

definition py_int :: "string \<Rightarrow> exn + int" where
  "py_int s =
     (if max_str_digits < length s then Inl digits_limit_error else Inr (int_of_digits s))"

section \<open>Dictionaries\<close>

text \<open>
  A \<open>dict\<close> is an association list with distinct keys in insertion order. \<open>d[k] = v\<close> is
  \<open>AList.update k v d\<close>, which overwrites in place or appends.
\<close>

type_synonym 'v dict = "(string \<times> 'v) list"

definition dict_get :: "'v dict \<Rightarrow> string \<Rightarrow> 'v \<Rightarrow> 'v" where
  "dict_get d k dflt = (case map_of d k of None \<Rightarrow> dflt | Some v \<Rightarrow> v)"

definition dict_item :: "'v dict \<Rightarrow> string \<Rightarrow> exn + 'v" where
  "dict_item d k = (case map_of d k of None \<Rightarrow> Inl (KeyError k) | Some v \<Rightarrow> Inr v)"

definition categories :: "int dict" where
  "categories =
     [(''naming'', 10), (''modularity'', 20), (''comments'', 20),
      (''formatting'', 15), (''reusability'', 15), (''best_practices'', 20)]"

section \<open>The syntax tree\<close>

text \<open>
  The tree that \<open>ast.parse\<close> returns, with one constructor for each node class that a
  rule tests and \<open>Other\<close> for every other class (the module node among them).
  A function definition holds the three parts of its \<open>arguments\<close> node
  (\<open>posonlyargs\<close>, \<open>args\<close>, the rest), its \<open>body\<close> and its remaining child nodes.
  \<open>Str\<close> is a constant whose value is a string, which is what \<open>ast.Str\<close> tests in
  the Python versions that have this class.
  The expression-context markers of a name belong to no class that a rule tests and
  are left out.
\<close>

datatype ast =
    FunctionDef string "ast list" "ast list" "ast list" "ast list" "ast list"
  | AsyncFunctionDef string "ast list" "ast list" "ast list" "ast list" "ast list"
  | Arguments "ast list" "ast list" "ast list"
  | Name string
  | Expr ast
  | Str string
  | Call ast "ast list"
  | Global "string list"
  | Try "ast list" "ast list" "ast list" "ast list"
  | ExceptHandler "ast list"
  | Other "ast list"

text \<open>\<open>ast.iter_child_nodes\<close>: the child nodes in field order.\<close>

fun iter_child_nodes :: "ast \<Rightarrow> ast list" where
  "iter_child_nodes (FunctionDef n po a ar b r) = Arguments po a ar # b @ r"
| "iter_child_nodes (AsyncFunctionDef n po a ar b r) = Arguments po a ar # b @ r"
| "iter_child_nodes (Arguments po a ar) = po @ a @ ar"
| "iter_child_nodes (Name i) = []"
| "iter_child_nodes (Expr v) = [v]"
| "iter_child_nodes (Str s) = []"
| "iter_child_nodes (Call f r) = f # r"
| "iter_child_nodes (Global ns) = []"
| "iter_child_nodes (Try b h e f) = b @ h @ e @ f"
| "iter_child_nodes (ExceptHandler r) = r"
| "iter_child_nodes (Other r) = r"

text \<open>The number of nodes of a tree, the measure of the traversal below.\<close>

fun nodes :: "ast \<Rightarrow> nat" where
  "nodes (FunctionDef n po a ar b r) =
     2 + sum_list (map nodes po) + sum_list (map nodes a) + sum_list (map nodes ar)
       + sum_list (map nodes b) + sum_list (map nodes r)"
| "nodes (AsyncFunctionDef n po a ar b r) =
     2 + sum_list (map nodes po) + sum_list (map nodes a) + sum_list (map nodes ar)
       + sum_list (map nodes b) + sum_list (map nodes r)"
| "nodes (Arguments po a ar) =
     1 + sum_list (map nodes po) + sum_list (map nodes a) + sum_list (map nodes ar)"
| "nodes (Name i) = 1"
| "nodes (Expr v) = 1 + nodes v"
| "nodes (Str s) = 1"
| "nodes (Call f r) = 1 + nodes f + sum_list (map nodes r)"
| "nodes (Global ns) = 1"
| "nodes (Try b h e f) =
     1 + sum_list (map nodes b) + sum_list (map nodes h) + sum_list (map nodes e)
       + sum_list (map nodes f)"
| "nodes (ExceptHandler r) = 1 + sum_list (map nodes r)"
| "nodes (Other r) = 1 + sum_list (map nodes r)"

text \<open>
  \<open>ast.walk\<close>: breadth first, from a queue that starts with the root; each node taken
  from the front puts its children at the back.
\<close>

function walk_queue :: "ast list \<Rightarrow> ast list" where
  "walk_queue [] = []"
| "walk_queue (n # todo) = n # walk_queue (todo @ iter_child_nodes n)"
  by pat_completeness auto
termination
proof (relation "measure (\<lambda>q. sum_list (map nodes q))")
  show "wf (measure (\<lambda>q. sum_list (map nodes q)))"
    by simp
next
  fix n :: ast and todo :: "ast list"
  have "sum_list (map nodes (iter_child_nodes n)) < nodes n"
    by (cases n) simp_all
  then show "(todo @ iter_child_nodes n, n # todo) \<in> measure (\<lambda>q. sum_list (map nodes q))"
    by simp
qed

definition walk :: "ast \<Rightarrow> ast list" where
  "walk tree = walk_queue [tree]"

section \<open>The static rubric rules\<close>

text \<open>
  \<open>re.match(r'^[a-z][a-z0-9_]*$', name)\<close>: a lower-case letter, then lower-case
  letters, digits and underscores up to the end of the string; \<open>$\<close> also matches
  before a newline that ends the string.
\<close>

definition matches_snake :: "string \<Rightarrow> bool" where
  "matches_snake s =
     (case s of
        [] \<Rightarrow> False
      | c # cs \<Rightarrow>
          is_lower_az c \<and>
          (let rest = dropWhile (\<lambda>x. is_lower_az x \<or> is_digit x \<or> ord x = 95) cs
           in rest = [] \<or> rest = [newline]))"

text \<open>
  The name that the naming rule reads from a node: \<open>node.name\<close> of a function
  definition, \<open>node.id\<close> of a name, nothing from any other class.
\<close>

fun declared_name :: "ast \<Rightarrow> string option" where
  "declared_name (FunctionDef n po a ar b r) = Some n"
| "declared_name (AsyncFunctionDef n po a ar b r) = Some n"
| "declared_name (Name i) = Some i"
| "declared_name _ = None"

definition check_naming_conventions :: "ast \<Rightarrow> int" where
  "check_naming_conventions tree =
     max 0 (fold (\<lambda>node score.
                    case declared_name node of
                      None \<Rightarrow> score
                    | Some nm \<Rightarrow> if \<not> matches_snake nm then score - 2 else score)
                 (walk tree) 10)"

fun modularity_step :: "ast \<Rightarrow> int \<Rightarrow> int" where
  "modularity_step (FunctionDef n po a ar b r) score =
     (let score = (if 20 < length b then score - 5 else score)
      in if 5 < length a then score - 3 else score)"
| "modularity_step (AsyncFunctionDef n po a ar b r) score =
     (let score = (if 20 < length b then score - 5 else score)
      in if 5 < length a then score - 3 else score)"
| "modularity_step _ score = score"

definition check_modularity :: "ast \<Rightarrow> int" where
  "check_modularity tree = max 0 (fold modularity_step (walk tree) 20)"

text \<open>An expression statement whose value is a string constant.\<close>

fun is_docstring :: "ast \<Rightarrow> bool" where
  "is_docstring (Expr (Str s)) = True"
| "is_docstring _ = False"

text \<open>
  The comments rule takes the source text and parses it again; \<open>parse\<close> stands for
  \<open>ast.parse\<close>, which is not part of the repository.
\<close>

definition check_comments :: "(string \<Rightarrow> exn + ast) \<Rightarrow> string \<Rightarrow> exn + int" where
  "check_comments parse code =
     rbind (parse code) (\<lambda>tree.
       let score = 20;
           docstrings = int (length (filter is_docstring (walk tree)))
       in Inr (min 20 (score + docstrings * 5)))"

definition penalised :: "string \<Rightarrow> bool" where
  "penalised line =
     (79 < length line \<or> (strip line \<noteq> [] \<and> \<not> startswith line (replicate 4 CHR '' '')))"

definition check_formatting :: "string \<Rightarrow> int" where
  "check_formatting code =
     max 0 (fold (\<lambda>line score. if penalised line then score - 2 else score)
                 (split_nl code) 15)"

text \<open>
  The reusability rule counts the calls whose callee is a plain name, in a dictionary
  from the callee to its count.
\<close>

fun count_call :: "ast \<Rightarrow> int dict \<Rightarrow> int dict" where
  "count_call (Call (Name i) r) function_calls =
     AList.update i (dict_get function_calls i 0 + 1) function_calls"
| "count_call _ function_calls = function_calls"

definition check_reusability :: "ast \<Rightarrow> int" where
  "check_reusability tree =
     (let score = 15;
          function_calls = fold count_call (walk tree) []
      in max 0 (score - sum_list (map (\<lambda>count. 2)
                                      (filter (\<lambda>count. 3 < count) (map snd function_calls)))))"

fun is_ExceptHandler :: "ast \<Rightarrow> bool" where
  "is_ExceptHandler (ExceptHandler r) = True"
| "is_ExceptHandler _ = False"

fun best_practices_step :: "ast \<Rightarrow> int \<Rightarrow> int" where
  "best_practices_step (Global ns) score = score - 5"
| "best_practices_step (Try b h e f) score =
     (if \<not> list_ex is_ExceptHandler h then score - 3 else score)"
| "best_practices_step _ score = score"

definition check_best_practices :: "ast \<Rightarrow> int" where
  "check_best_practices tree = max 0 (fold best_practices_step (walk tree) 20)"

text \<open>
  Only \<open>SyntaxError\<close> is caught; any other exception of the parser propagates.
\<close>

definition analyze_python :: "(string \<Rightarrow> exn + ast) \<Rightarrow> string \<Rightarrow> exn + int dict" where
  "analyze_python parse code =
     (case parse code of
        Inl e \<Rightarrow>
          if e = SyntaxError then Inr (map (\<lambda>(category, weight). (category, 0)) categories)
          else Inl e
      | Inr tree \<Rightarrow>
          rbind (check_comments parse code) (\<lambda>comments.
            Inr [(''naming'', check_naming_conventions tree),
                 (''modularity'', check_modularity tree),
                 (''comments'', comments),
                 (''formatting'', check_formatting code),
                 (''reusability'', check_reusability tree),
                 (''best_practices'', check_best_practices tree)]))"

text \<open>
  The class has no method \<open>_analyze_javascript\<close>: the call raises \<open>AttributeError\<close>
  with the name of the missing attribute.
\<close>

definition analyze_javascript :: "string \<Rightarrow> exn + int dict" where
  "analyze_javascript code = Inl (AttributeError ''_analyze_javascript'')"

section \<open>The external feedback extractor\<close>

text \<open>
  \<open>re.match(r"(\w+):\s*(\d+)", line)\<close>. The three repetitions are greedy and each is
  followed by a character outside its class, so the match, when there is one, takes the
  longest run of word characters, the colon, the longest run of white space and the
  longest run of digits. The result is the pair of the two groups.
\<close>

definition match_score :: "string \<Rightarrow> (string \<times> string) option" where
  "match_score line =
     (let word = takeWhile is_word line
      in if word = [] then None
         else (case dropWhile is_word line of
                 [] \<Rightarrow> None
               | c # rest \<Rightarrow>
                   if c \<noteq> CHR '':'' then None
                   else (let digits = takeWhile is_digit (dropWhile is_space rest)
                         in if digits = [] then None else Some (word, digits))))"

text \<open>
  One round of the loop over the lines: the integer is converted first, then the
  lower-case word is stored. A failed conversion leaves the loop with its exception.
\<close>

definition record_score :: "string \<Rightarrow> int dict \<Rightarrow> exn + int dict" where
  "record_score line scores =
     (case match_score line of
        None \<Rightarrow> Inr scores
      | Some (word, digits) \<Rightarrow>
          rbind (py_int digits) (\<lambda>number. Inr (AList.update (lower word) number scores)))"

fun extract_lines :: "string list \<Rightarrow> int dict \<Rightarrow> exn + int dict" where
  "extract_lines [] scores = Inr scores"
| "extract_lines (line # ls) scores = rbind (record_score line scores) (extract_lines ls)"

definition extract_scores :: "string \<Rightarrow> exn + int dict" where
  "extract_scores feedback = extract_lines (split_nl feedback) []"

definition extract_recommendations :: "string \<Rightarrow> string list" where
  "extract_recommendations feedback =
     map (drop 2) (filter (\<lambda>line. startswith line ''- '') (split_nl feedback))"

section \<open>Floating-point arithmetic\<close>

text \<open>
  A Python \<open>float\<close> is an IEEE 754 binary64 number. A finite one is modelled by the
  rational number it stands for. Each operation computes the exact result and rounds it
  to the nearest binary64 number, ties to the even significand: \<open>expo x\<close> is the
  exponent \<open>k\<close> with \<open>2 powi k \<le> \<bar>x\<bar> < 2 powi (k + 1)\<close>, the significand has 53 bits, and
  below \<open>2 powi (- 1022)\<close> the spacing stays that of the smallest normal numbers.
\<close>

definition round_half_even :: "rat \<Rightarrow> int" where
  "round_half_even x =
     (let f = \<lfloor>x\<rfloor>; d = x - of_int f
      in if d < 1 / 2 then f else if 1 / 2 < d then f + 1 else if even f then f else f + 1)"

definition expo :: "rat \<Rightarrow> int" where
  "expo x =
     (let (p, q) = quotient_of \<bar>x\<bar>; k = bitlen p - bitlen q
      in if 2 powi k \<le> \<bar>x\<bar> then k else k - 1)"

definition round_double :: "rat \<Rightarrow> rat" where
  "round_double x =
     (let e = max (expo x) (- 1022); q = 2 powi (e - 52)
      in of_int (round_half_even (x / q)) * q)"

text \<open>
  A rounded result whose exponent is above 1023, that is of magnitude \<open>2 powi 1024\<close>
  or more, is outside binary64. Converting
  such an integer and dividing integers with such a quotient raise \<open>OverflowError\<close>;
  a product or a sum becomes an infinity, which stays one through the operations that
  follow here and raises \<open>OverflowError\<close> in the final \<open>round\<close>. In both cases the
  expression raises \<open>OverflowError\<close>, which the model does at the operation.
\<close>

definition to_double :: "rat \<Rightarrow> exn + rat" where
  "to_double x =
     (let r = round_double x in if 1024 \<le> expo r then Inl OverflowError else Inr r)"

text \<open>A float literal such as \<open>0.7\<close>: the nearest binary64 number.\<close>

definition float_literal :: "rat \<Rightarrow> rat" where
  "float_literal x = round_double x"

text \<open>The conversion of an \<open>int\<close> operand of a mixed operation.\<close>

definition float_of_int :: "int \<Rightarrow> exn + rat" where
  "float_of_int n = to_double (of_int n)"

definition fmul :: "rat \<Rightarrow> rat \<Rightarrow> exn + rat" where
  "fmul a b = to_double (a * b)"

definition fadd :: "rat \<Rightarrow> rat \<Rightarrow> exn + rat" where
  "fadd a b = to_double (a + b)"

text \<open>\<open>a / b\<close> on two \<open>int\<close>s: the correctly rounded quotient.\<close>

definition truediv :: "int \<Rightarrow> int \<Rightarrow> exn + rat" where
  "truediv a b = (if b = 0 then Inl ZeroDivisionError else to_double (of_int a / of_int b))"

text \<open>\<open>round(x)\<close> on a finite \<open>float\<close>: the nearest \<open>int\<close>, ties to even.\<close>

definition py_round :: "rat \<Rightarrow> int" where
  "py_round x = round_half_even x"

section \<open>The score combiner\<close>

text \<open>
  \<open>round((static * 0.7 + ai * 0.3) * (weight / 100))\<close> for one category, in Python's
  order of evaluation.
\<close>

definition combined_score :: "int \<Rightarrow> int \<Rightarrow> int \<Rightarrow> exn + int" where
  "combined_score static ai weight =
     rbind (float_of_int static) (\<lambda>sf.
     rbind (fmul sf (float_literal (7 / 10))) (\<lambda>a.
     rbind (float_of_int ai) (\<lambda>af.
     rbind (fmul af (float_literal (3 / 10))) (\<lambda>b.
     rbind (fadd a b) (\<lambda>t.
     rbind (truediv weight 100) (\<lambda>k.
     rbind (fmul t k) (\<lambda>r.
     Inr (py_round r))))))))"

definition combine_metrics :: "int dict \<Rightarrow> int dict \<Rightarrow> exn + int dict" where
  "combine_metrics static_metrics ai_metrics =
     map_result (\<lambda>(category, weight).
                   rbind (combined_score (dict_get static_metrics category 0)
                                         (dict_get ai_metrics category 0) weight)
                         (\<lambda>v. Inr (category, v)))
                categories"

definition calculate_overall_score :: "int dict \<Rightarrow> exn + int" where
  "calculate_overall_score metrics =
     rbind (truediv (sum_list (map snd metrics)) (sum_list (map snd categories))) (\<lambda>q.
     rbind (float_of_int 100) (\<lambda>h.
     rbind (fmul q h) (\<lambda>r.
     Inr (py_round r))))"

section \<open>The recommendation combiner\<close>

definition naming_advice :: string where
  "naming_advice = ''Use snake_case for function and variable names.''"

definition modularity_advice :: string where
  "modularity_advice =
     ''Consider breaking down long functions into smaller, focused functions.''"

definition static_recommendations :: "int \<Rightarrow> int \<Rightarrow> string list" where
  "static_recommendations naming modularity =
     (if naming < 8 then [naming_advice] else [])
     @ (if modularity < 15 then [modularity_advice] else [])"


definition combine_recommendations ::
  "(string list \<Rightarrow> string list) \<Rightarrow> int dict \<Rightarrow> string list \<Rightarrow> exn + string list" where
  "combine_recommendations list_set static_metrics ai_recommendations =
     rbind (dict_item static_metrics ''naming'') (\<lambda>naming.
     rbind (dict_item static_metrics ''modularity'') (\<lambda>modularity.
     Inr (take 5 (list_set (static_recommendations naming modularity @ ai_recommendations)))))"

section \<open>The review operation\<close>

text \<open>
  The external model is a parameter \<open>generate_content\<close> from the prompt to the text of
  the response, or to the exception of a failed call. The state of the world is the
  list of the prompts sent so far.
\<close>

record world =
  requests :: "string list"

record ai_analysis =
  ai_detailed_feedback :: string
  ai_recommendations :: "string list"
  ai_scores :: "int dict"

record review =
  overall_score :: int
  breakdown :: "int dict"
  recommendations :: "string list"
  detailed_feedback :: string

definition indent :: string where
  "indent = replicate 8 CHR '' ''"

definition prompt_text :: "string \<Rightarrow> string \<Rightarrow> string option \<Rightarrow> string" where
  "prompt_text code language context =
     concat (map (\<lambda>l. l @ [newline])
       [[],
        indent @ ''You are an expert in '' @ language
               @ '' code review. Analyze the provided code for:'',
        indent @ ''1. Code Structure and Organization'',
        indent @ ''2. Naming Conventions'',
        indent @ ''3. Error Handling'',
        indent @ ''4. Performance Optimization'',
        indent @ ''5. Security Practices'',
        indent @ ''6. Documentation and Comments'',
        indent @ ''7. Best Practices'',
        indent @ '' '',
        indent @ ''Provide:'',
        indent @ ''- Detailed feedback with examples'',
        indent @ ''- Specific recommendations'',
        indent @ ''- Score each category out of 100'',
        indent @ ''- Provide at least 3 recommendations for improvement'',
        indent,
        indent @ ''Code to review:'',
        indent @ ''```'' @ language,
        indent @ code,
        indent @ ''```'',
        indent,
        indent @ ''Context: ''
               @ (case context of
                    None \<Rightarrow> ''No specific context provided''
                  | Some c \<Rightarrow> if c = [] then ''No specific context provided'' else c)])
     @ indent"

definition get_ai_analysis ::
  "(string \<Rightarrow> exn + string) \<Rightarrow> string \<Rightarrow> string \<Rightarrow> string option \<Rightarrow> world
     \<Rightarrow> (exn + ai_analysis) \<times> world" where
  "get_ai_analysis generate_content code language context w =
     (let prompt = prompt_text code language context;
          w' = w\<lparr>requests := requests w @ [prompt]\<rparr>
      in (rbind (generate_content prompt) (\<lambda>text_response.
          rbind (extract_scores text_response) (\<lambda>scores.
            Inr \<lparr>ai_detailed_feedback = text_response,
                 ai_recommendations = extract_recommendations text_response,
                 ai_scores = scores\<rparr>)),
          w'))"

definition language_map :: "string dict" where
  "language_map = [(''py'', ''python''), (''js'', ''javascript''), (''jsx'', ''javascript'')]"

definition analyze_code ::
  "(string \<Rightarrow> exn + ast) \<Rightarrow> (string list \<Rightarrow> string list) \<Rightarrow> (string \<Rightarrow> exn + string)
     \<Rightarrow> string \<Rightarrow> string \<Rightarrow> string option \<Rightarrow> world \<Rightarrow> (exn + review) \<times> world" where
  "analyze_code parse list_set generate_content code language context w =
     (let language = dict_get language_map language language;
          static =
            (if language = ''python'' then analyze_python parse code
             else if language \<in> set [''javascript'', ''jsx''] then analyze_javascript code
             else Inl (ValueError (''Unsupported language: '' @ language)))
      in case static of
           Inl e \<Rightarrow> (Inl e, w)
         | Inr static_analysis \<Rightarrow>
             (case get_ai_analysis generate_content code language context w of
                (Inl e, w') \<Rightarrow> (Inl e, w')
              | (Inr ai, w') \<Rightarrow>
                  (rbind (combine_metrics static_analysis (ai_scores ai)) (\<lambda>combined_metrics.
                   rbind (combine_recommendations list_set static_analysis
                            (ai_recommendations ai)) (\<lambda>recommendations.
                   rbind (calculate_overall_score combined_metrics) (\<lambda>overall.
                   Inr \<lparr>overall_score = overall,
                        breakdown = combined_metrics,
                        recommendations = take 5 recommendations,
                        detailed_feedback = ai_detailed_feedback ai\<rparr>))),
                   w')))"

section \<open>Notions used in the statements\<close>

text \<open>
  The number of expression statements whose value is a string constant, counted along
  the structure of the tree.
\<close>

fun docstring_count :: "ast \<Rightarrow> nat" where
  "docstring_count (FunctionDef n po a ar b r) =
     sum_list (map docstring_count po) + sum_list (map docstring_count a)
       + sum_list (map docstring_count ar) + sum_list (map docstring_count b)
       + sum_list (map docstring_count r)"
| "docstring_count (AsyncFunctionDef n po a ar b r) =
     sum_list (map docstring_count po) + sum_list (map docstring_count a)
       + sum_list (map docstring_count ar) + sum_list (map docstring_count b)
       + sum_list (map docstring_count r)"
| "docstring_count (Arguments po a ar) =
     sum_list (map docstring_count po) + sum_list (map docstring_count a)
       + sum_list (map docstring_count ar)"
| "docstring_count (Name i) = 0"
| "docstring_count (Expr v) = (if is_docstring (Expr v) then 1 else 0) + docstring_count v"
| "docstring_count (Str s) = 0"
| "docstring_count (Call f r) = docstring_count f + sum_list (map docstring_count r)"
| "docstring_count (Global ns) = 0"
| "docstring_count (Try b h e f) =
     sum_list (map docstring_count b) + sum_list (map docstring_count h)
       + sum_list (map docstring_count e) + sum_list (map docstring_count f)"
| "docstring_count (ExceptHandler r) = sum_list (map docstring_count r)"
| "docstring_count (Other r) = sum_list (map docstring_count r)"




text \<open>
  The combined score as the specification words it, with the formula taken in exact
  arithmetic: \<open>round((s * 0.7 + e * 0.3) * (w / 100))\<close> on rational numbers.
\<close>

definition exact_combined :: "int \<Rightarrow> int \<Rightarrow> int \<Rightarrow> int" where
  "exact_combined s e w =
     round_half_even ((of_int s * (7 / 10) + of_int e * (3 / 10)) * (of_int w / 100))"

text \<open>
  The formatting rule as the specification words it: a line is non-conforming when it
  exceeds 79 characters, or is non-blank and does not begin with exactly four
  leading space characters.
\<close>

definition leading_spaces :: "string \<Rightarrow> nat" where
  "leading_spaces line = length (takeWhile (\<lambda>c. c = CHR '' '') line)"

definition spec_nonconforming :: "string \<Rightarrow> bool" where
  "spec_nonconforming line =
     (79 < length line \<or> (list_ex (\<lambda>c. \<not> is_space c) line \<and> leading_spaces line \<noteq> 4))"

definition spec_check_formatting :: "string \<Rightarrow> int" where
  "spec_check_formatting code =
     max 0 (15 - 2 * int (length (filter spec_nonconforming (split_nl code))))"

subsection \<open>Sample inputs\<close>

text \<open>
  Two source texts with their trees, and a parser that knows these two texts and
  rejects every other one:
  \<^verbatim>\<open>def f(x):\<close> / \<^verbatim>\<open>    return x\<close> and the same function with the string statement
  \<^verbatim>\<open>'doc'\<close> as its first statement.
\<close>

definition plain_source :: string where
  "plain_source = ''def f(x):'' @ [newline] @ ''    return x''"

definition plain_tree :: ast where
  "plain_tree =
     Other [FunctionDef ''f'' [] [Other []] [] [Other [Name ''x'']] []]"

definition documented_source :: string where
  "documented_source =
     ''def f(x):'' @ [newline] @ ''    '' @ [CHR 0x27] @ ''doc'' @ [CHR 0x27]
       @ [newline] @ ''    return x''"

definition documented_tree :: ast where
  "documented_tree =
     Other [FunctionDef ''f'' [] [Other []] [] [Expr (Str ''doc''), Other [Name ''x'']] []]"

definition sample_parse :: "string \<Rightarrow> exn + ast" where
  "sample_parse code =
     (if code = plain_source then Inr plain_tree
      else if code = documented_source then Inr documented_tree
      else Inl SyntaxError)"

definition sample_feedback :: string where
  "sample_feedback = ''Naming: 85'' @ [newline] @ ''- Use more descriptive variable names''"

section \<open>Results, folds and traversal\<close>

lemma rbind_Inr [simp]: "rbind (Inr v) f = f v"
  by (simp add: rbind_def)

lemma rbind_Inl [simp]: "rbind (Inl e) f = Inl e"
  by (simp add: rbind_def)

lemma fold_nonincreasing:
  fixes s :: int
  assumes "\<And>x t. f x t \<le> t"
  shows "fold f xs s \<le> s"
proof (induction xs arbitrary: s)
  case Nil
  show ?case by simp
next
  case (Cons x xs)
  have "fold f xs (f x s) \<le> f x s" by (rule Cons.IH)
  also have "\<dots> \<le> s" by (rule assms)
  finally show ?case by simp
qed

lemma naming_step_le:
  "(case declared_name node of None \<Rightarrow> score
    | Some nm \<Rightarrow> if \<not> matches_snake nm then score - 2 else score) \<le> (score::int)"
  by (simp split: option.split)

lemma modularity_step_le: "modularity_step node score \<le> score"
  by (cases node) (simp_all add: Let_def)

lemma best_practices_step_le: "best_practices_step node score \<le> score"
  by (cases node) simp_all

lemma check_naming_conventions_range:
  "0 \<le> check_naming_conventions tree \<and> check_naming_conventions tree \<le> 10"
proof -
  have "fold (\<lambda>node score. case declared_name node of None \<Rightarrow> score
            | Some nm \<Rightarrow> if \<not> matches_snake nm then score - 2 else score) (walk tree) 10 \<le> (10::int)"
    by (rule fold_nonincreasing) (rule naming_step_le)
  then show ?thesis by (simp add: check_naming_conventions_def)
qed

lemma check_modularity_range:
  "0 \<le> check_modularity tree \<and> check_modularity tree \<le> 20"
proof -
  have "fold modularity_step (walk tree) 20 \<le> 20"
    by (rule fold_nonincreasing) (rule modularity_step_le)
  then show ?thesis by (simp add: check_modularity_def)
qed

lemma check_best_practices_range:
  "0 \<le> check_best_practices tree \<and> check_best_practices tree \<le> 20"
proof -
  have "fold best_practices_step (walk tree) 20 \<le> 20"
    by (rule fold_nonincreasing) (rule best_practices_step_le)
  then show ?thesis by (simp add: check_best_practices_def)
qed

lemma check_formatting_range:
  "0 \<le> check_formatting code \<and> check_formatting code \<le> 15"
proof -
  have "fold (\<lambda>line score. if penalised line then score - 2 else score) (split_nl code) 15 \<le> (15::int)"
    by (rule fold_nonincreasing) simp
  then show ?thesis by (simp add: check_formatting_def)
qed

lemma check_reusability_range:
  "0 \<le> check_reusability tree \<and> check_reusability tree \<le> 15"
proof -
  have "0 \<le> sum_list (map (\<lambda>count. 2::int) xs)" for xs :: "int list"
    by (induction xs) simp_all
  then show ?thesis by (simp add: check_reusability_def Let_def)
qed

lemma check_comments_parsed:
  assumes "parse code = Inr tree"
  shows "check_comments parse code = Inr 20"
  using assms by (simp add: check_comments_def Let_def)

lemma docstring_count_children:
  "docstring_count n =
     (if is_docstring n then 1 else 0) + sum_list (map docstring_count (iter_child_nodes n))"
  by (cases n) simp_all

lemma walk_queue_docstrings:
  "length (filter is_docstring (walk_queue q)) = sum_list (map docstring_count q)"
proof (induction q rule: walk_queue.induct)
  case 1
  show ?case by simp
next
  case (2 n todo)
  then show ?case
    using docstring_count_children[of n] by simp
qed

lemma walk_docstrings: "length (filter is_docstring (walk tree)) = docstring_count tree"
  by (simp add: walk_def walk_queue_docstrings del: walk_queue.simps)

lemma analyze_python_parsed:
  assumes "parse code = Inr tree"
  shows "analyze_python parse code =
     Inr [(''naming'', check_naming_conventions tree),
          (''modularity'', check_modularity tree),
          (''comments'', 20),
          (''formatting'', check_formatting code),
          (''reusability'', check_reusability tree),
          (''best_practices'', check_best_practices tree)]"
  using assms by (simp add: analyze_python_def check_comments_parsed[of parse code tree])

section \<open>Properties of the floating-point model\<close>

lemma rhe_err: "\<bar>of_int (round_half_even x) - x\<bar> \<le> 1 / 2"
proof -
  define f where "f = \<lfloor>x\<rfloor>"
  define d where "d = x - of_int f"
  have d: "0 \<le> d" "d < 1" unfolding d_def f_def by linarith+
  have x: "x = of_int f + d" by (simp add: d_def)
  have r: "round_half_even x =
      (if d < 1 / 2 then f else if 1 / 2 < d then f + 1 else if even f then f else f + 1)"
    by (simp add: round_half_even_def Let_def f_def d_def)
  have "of_int (round_half_even x) - x =
      (if d < 1 / 2 then - d else if 1 / 2 < d then 1 - d else if even f then - d else 1 - d)"
    unfolding r by (simp add: x)
  then show ?thesis using d by (auto simp: abs_if split: if_splits)
qed

lemma rhe_nonneg: "0 \<le> x \<Longrightarrow> 0 \<le> round_half_even x"
  unfolding round_half_even_def Let_def by auto

lemma rhe_eqI: "\<bar>x - of_int n\<bar> < 1 / 2 \<Longrightarrow> round_half_even x = n"
proof -
  assume a: "\<bar>x - of_int n\<bar> < 1 / 2"
  have "\<bar>of_int (round_half_even x) - x\<bar> \<le> 1 / 2" by (rule rhe_err)
  with a have "\<bar>(of_int (round_half_even x) :: rat) - of_int n\<bar> < 1" by linarith
  then have "\<bar>round_half_even x - n\<bar> < 1"
    by (metis of_int_abs of_int_diff of_int_less_1_iff)
  then show ?thesis by linarith
qed

lemma rhe_le: "x < of_int n + 1 / 2 \<Longrightarrow> round_half_even x \<le> n"
proof -
  assume a: "x < of_int n + 1 / 2"
  have "\<bar>of_int (round_half_even x) - x\<bar> \<le> 1 / 2" by (rule rhe_err)
  with a have "(of_int (round_half_even x) :: rat) < of_int n + 1" by linarith
  then have "(of_int (round_half_even x) :: rat) < of_int (n + 1)" by simp
  then have "round_half_even x < n + 1" by (simp only: of_int_less_iff)
  then show ?thesis by linarith
qed

lemma expo_bounds:
  assumes "x \<noteq> 0"
  shows "2 powi expo x \<le> \<bar>x\<bar>" and "\<bar>x\<bar> < 2 powi (expo x + 1)"
proof -
  obtain p q where pq: "quotient_of \<bar>x\<bar> = (p, q)" by (cases "quotient_of \<bar>x\<bar>")
  then have q: "0 < q" and x: "\<bar>x\<bar> = of_int p / of_int q"
    by (auto simp: quotient_of_denom_pos quotient_of_div)
  from assms have "0 < \<bar>x\<bar>" by simp
  with x q have p: "0 < p" by (simp add: zero_less_divide_iff)
  define k where "k = bitlen p - bitlen q"
  have e: "expo x = (if 2 powi k \<le> \<bar>x\<bar> then k else k - 1)"
    by (simp add: expo_def pq k_def Let_def)
  have bp: "2 ^ nat (bitlen p - 1) \<le> p" "p < 2 ^ nat (bitlen p)"
    using bitlen_bounds[OF p] by auto
  have bq: "2 ^ nat (bitlen q - 1) \<le> q" "q < 2 ^ nat (bitlen q)"
    using bitlen_bounds[OF q] by auto
  have bp1: "1 \<le> bitlen p"
  proof (rule ccontr)
    assume "\<not> 1 \<le> bitlen p"
    then have "nat (bitlen p) = 0" by simp
    with bp(2) p show False by simp
  qed
  have bq1: "1 \<le> bitlen q"
  proof (rule ccontr)
    assume "\<not> 1 \<le> bitlen q"
    then have "nat (bitlen q) = 0" by simp
    with bq(2) q show False by simp
  qed
  have P1: "(2::rat) powi (bitlen p - 1) \<le> of_int p"
  proof -
    have "(of_int (2 ^ nat (bitlen p - 1)) :: rat) \<le> of_int p" using bp(1) by (simp only: of_int_le_iff)
    then show ?thesis using bp1 by (simp add: power_int_def)
  qed
  have P2: "of_int p < (2::rat) powi (bitlen p)"
  proof -
    have "(of_int p :: rat) < of_int (2 ^ nat (bitlen p))" using bp(2) by (simp only: of_int_less_iff)
    then show ?thesis using bp1 by (simp add: power_int_def)
  qed
  have Q1: "(2::rat) powi (bitlen q - 1) \<le> of_int q"
  proof -
    have "(of_int (2 ^ nat (bitlen q - 1)) :: rat) \<le> of_int q" using bq(1) by (simp only: of_int_le_iff)
    then show ?thesis using bq1 by (simp add: power_int_def)
  qed
  have Q2: "of_int q < (2::rat) powi (bitlen q)"
  proof -
    have "(of_int q :: rat) < of_int (2 ^ nat (bitlen q))" using bq(2) by (simp only: of_int_less_iff)
    then show ?thesis using bq1 by (simp add: power_int_def)
  qed
  have qpos: "(0::rat) < of_int q" using q by simp
  have up: "\<bar>x\<bar> < 2 powi (k + 1)"
  proof -
    have "\<bar>x\<bar> * (2::rat) powi (bitlen q - 1) \<le> \<bar>x\<bar> * of_int q"
      using Q1 by (intro mult_left_mono) simp_all
    also have "\<dots> = of_int p" using x qpos by simp
    also have "\<dots> < 2 powi (bitlen p)" by (rule P2)
    also have "\<dots> = 2 powi (k + 1) * 2 powi (bitlen q - 1)"
      by (simp add: k_def flip: power_int_add)
    finally show ?thesis by simp
  qed
  have lo: "2 powi (k - 1) \<le> \<bar>x\<bar>"
  proof -
    have "(2::rat) powi (k - 1) * of_int q \<le> 2 powi (k - 1) * 2 powi (bitlen q)"
      using Q2 by (intro mult_left_mono) simp_all
    also have "\<dots> = 2 powi (bitlen p - 1)"
      by (simp add: k_def flip: power_int_add)
    also have "\<dots> \<le> of_int p" by (rule P1)
    also have "\<dots> = \<bar>x\<bar> * of_int q" using x qpos by simp
    finally show ?thesis using qpos by simp
  qed
  show "2 powi expo x \<le> \<bar>x\<bar>" using e lo by auto
  show "\<bar>x\<bar> < 2 powi (expo x + 1)" using e up by (auto simp: not_le)
qed


lemma expo_less:
  assumes "x \<noteq> 0" "\<bar>x\<bar> < 2 powi k"
  shows "expo x < k"
proof (rule ccontr)
  assume "\<not> expo x < k"
  then have "(2::rat) powi k \<le> 2 powi expo x"
    by (intro power_int_increasing) simp_all
  with expo_bounds(1)[OF assms(1)] assms(2) show False by linarith
qed

lemma expo_zero: "expo 0 = - 2"
  by (simp add: expo_def bitlen_def floorlog_def)

lemma round_double_zero: "round_double 0 = 0"
  by (simp add: round_double_def round_half_even_def Let_def)

text \<open>The two literals of the combiner have the bit patterns of binary64.\<close>

lemma float_literal_bits:
  "float_literal (7 / 10) = 6305039478318694 / 2 ^ 53
   \<and> float_literal (3 / 10) = 5404319552844595 / 2 ^ 54"
  by code_simp

lemma round_double_err:
  "\<bar>round_double x - x\<bar> \<le> 2 powi (max (expo x) (- 1022) - 53)"
proof -
  define e where "e = max (expo x) (- 1022)"
  define q :: rat where "q = 2 powi (e - 52)"
  have q: "0 < q" by (simp add: q_def)
  have r: "round_double x = of_int (round_half_even (x / q)) * q"
    by (simp add: round_double_def Let_def e_def q_def)
  have "\<bar>round_double x - x\<bar> = \<bar>of_int (round_half_even (x / q)) - x / q\<bar> * q"
  proof -
    have "round_double x - x = (of_int (round_half_even (x / q)) - x / q) * q"
      using q by (simp add: r algebra_simps)
    then show ?thesis using q by (simp add: abs_mult)
  qed
  also have "\<dots> \<le> 1 / 2 * q"
    using q by (intro mult_right_mono rhe_err) simp
  also have "\<dots> = 2 powi (e - 53)"
  proof -
    have "(2::rat) powi (e - 52) = 2 powi (e - 53 + 1)" by simp
    also have "\<dots> = 2 powi (e - 53) * 2" by (subst power_int_add) simp_all
    finally show ?thesis by (simp add: q_def)
  qed
  finally show ?thesis by (simp add: e_def)
qed

lemma round_double_nonneg:
  assumes "0 \<le> x"
  shows "0 \<le> round_double x"
proof -
  have "0 \<le> x / 2 powi (max (expo x) (- 1022) - 52)" using assms by simp
  then have "0 \<le> round_half_even (x / 2 powi (max (expo x) (- 1022) - 52))"
    by (rule rhe_nonneg)
  then show ?thesis by (simp add: round_double_def Let_def)
qed

lemma round_double_close:
  assumes "0 \<le> x"
  shows "\<bar>round_double x - x\<bar> \<le> x / 2 ^ 20 + 1 / 2 ^ 20"
proof (cases "x = 0")
  case True
  then show ?thesis by (simp add: round_double_zero)
next
  case False
  with assms have x: "0 < x" by simp
  show ?thesis
  proof (cases "- 1022 \<le> expo x")
    case True
    then have "max (expo x) (- 1022) - 53 = expo x + (- 53)" by simp
    then have "(2::rat) powi (max (expo x) (- 1022) - 53) = 2 powi (expo x + (- 53))"
      by (rule arg_cong)
    also have "\<dots> = 2 powi expo x * 2 powi (- 53)"
      by (subst power_int_add) simp_all
    also have "\<dots> \<le> x * 2 powi (- 53)"
      using expo_bounds(1)[OF False] x by (intro mult_right_mono) simp_all
    also have "\<dots> \<le> x * 2 powi (- 20)"
      using x by (intro mult_left_mono power_int_increasing) simp_all
    finally have "(2::rat) powi (max (expo x) (- 1022) - 53) \<le> x / 2 ^ 20"
      by (simp add: power_int_minus_divide)
    with round_double_err[of x] show ?thesis by simp
  next
    case False
    then have "max (expo x) (- 1022) - 53 = - 1075" by simp
    then have "(2::rat) powi (max (expo x) (- 1022) - 53) = 2 powi (- 1075)" by simp
    also have "\<dots> \<le> 2 powi (- 20)"
      by (intro power_int_increasing) simp_all
    finally have "(2::rat) powi (max (expo x) (- 1022) - 53) \<le> 1 / 2 ^ 20"
      by (simp add: power_int_minus_divide)
    moreover have "0 \<le> x / 2 ^ 20" using x by simp
    ultimately show ?thesis using round_double_err[of x] by linarith
  qed
qed

lemma to_double_small:
  assumes "0 \<le> x" "x \<le> 1000"
  shows "to_double x = Inr (round_double x)"
    and "0 \<le> round_double x"
    and "round_double x \<le> x + (x + 1) / 2 ^ 20"
    and "x - (x + 1) / 2 ^ 20 \<le> round_double x"
proof -
  have c: "\<bar>round_double x - x\<bar> \<le> x / 2 ^ 20 + 1 / 2 ^ 20"
    by (rule round_double_close[OF assms(1)])
  show n: "0 \<le> round_double x" by (rule round_double_nonneg[OF assms(1)])
  show u: "round_double x \<le> x + (x + 1) / 2 ^ 20"
    using c by (simp add: add_divide_distrib abs_le_iff)
  show "x - (x + 1) / 2 ^ 20 \<le> round_double x"
    using c by (simp add: add_divide_distrib abs_le_iff)
  have "round_double x < 2 powi 11"
  proof -
    have "(x + 1) / 2 ^ 20 \<le> 1001" using assms by simp
    with u assms(2) have "round_double x < 2048" by linarith
    then show ?thesis by simp
  qed
  then have "expo (round_double x) < 1024"
  proof (cases "round_double x = 0")
    case True
    then show ?thesis by (simp add: expo_zero)
  next
    case False
    assume "round_double x < 2 powi 11"
    with n have "\<bar>round_double x\<bar> < 2 powi 11" by simp
    from expo_less[OF False this] show ?thesis by simp
  qed
  then show "to_double x = Inr (round_double x)"
    by (simp add: to_double_def Let_def)
qed

lemma small_fraction: "(x::rat) \<le> 1000 \<Longrightarrow> (x + 1) / 2 ^ 20 \<le> 1 / 1000"
  by simp

lemma to_double_bounded:
  assumes "0 \<le> x" "x \<le> B" "B \<le> 1000"
  shows "\<exists>r. to_double x = Inr r \<and> 0 \<le> r \<and> r \<le> B + (B + 1) / 2 ^ 20"
proof -
  have x: "x \<le> 1000" using assms by simp
  have "round_double x \<le> x + (x + 1) / 2 ^ 20"
    by (rule to_double_small(3)[OF assms(1) x])
  also have "\<dots> \<le> B + (B + 1) / 2 ^ 20"
    using assms(2) by (intro add_mono divide_right_mono) simp_all
  finally show ?thesis
    using to_double_small(1,2)[OF assms(1) x] by simp
qed

lemma fmul_bounded:
  assumes "0 \<le> a" "a \<le> A" "0 \<le> b" "b \<le> B" "A * B \<le> C" "C \<le> 1000"
  shows "\<exists>r. fmul a b = Inr r \<and> 0 \<le> r \<and> r \<le> C + (C + 1) / 2 ^ 20"
proof -
  have "a * b \<le> A * B" using assms by (intro mult_mono) simp_all
  with assms(5) have "a * b \<le> C" by simp
  moreover have "0 \<le> a * b" using assms by simp
  ultimately show ?thesis
    unfolding fmul_def using assms(6) by (intro to_double_bounded)
qed

lemma combined_score_bounds:
  assumes s: "0 \<le> s" "s \<le> 100" and e: "0 \<le> e" "e \<le> 100" and w: "0 \<le> w" "w \<le> 20"
  shows "\<exists>v. combined_score s e w = Inr v \<and> 0 \<le> v \<and> v \<le> w"
proof -
  have c7: "0 \<le> float_literal (7 / 10)" "float_literal (7 / 10) \<le> 7001 / 10000"
  proof -
    show "0 \<le> float_literal (7 / 10)"
      unfolding float_literal_def by (rule round_double_nonneg) simp
    have "round_double (7 / 10) \<le> 7 / 10 + (7 / 10 + 1) / 2 ^ 20"
      by (rule to_double_small(3)) simp_all
    then show "float_literal (7 / 10) \<le> 7001 / 10000"
      unfolding float_literal_def by simp
  qed
  have c3: "0 \<le> float_literal (3 / 10)" "float_literal (3 / 10) \<le> 3001 / 10000"
  proof -
    show "0 \<le> float_literal (3 / 10)"
      unfolding float_literal_def by (rule round_double_nonneg) simp
    have "round_double (3 / 10) \<le> 3 / 10 + (3 / 10 + 1) / 2 ^ 20"
      by (rule to_double_small(3)) simp_all
    then show "float_literal (3 / 10) \<le> 3001 / 10000"
      unfolding float_literal_def by simp
  qed
  obtain sf where sf: "float_of_int s = Inr sf" "0 \<le> sf" "sf \<le> 1001 / 10"
  proof -
    have "\<exists>r. to_double (of_int s) = Inr r \<and> 0 \<le> r \<and> r \<le> 100 + (100 + 1) / 2 ^ 20"
      using s by (intro to_double_bounded) simp_all
    then obtain r where "to_double (of_int s) = Inr r" "0 \<le> r" "r \<le> 100 + (100 + 1) / 2 ^ 20"
      by blast
    then show ?thesis by (intro that[of r]) (simp_all add: float_of_int_def)
  qed
  obtain af where af: "float_of_int e = Inr af" "0 \<le> af" "af \<le> 1001 / 10"
  proof -
    have "\<exists>r. to_double (of_int e) = Inr r \<and> 0 \<le> r \<and> r \<le> 100 + (100 + 1) / 2 ^ 20"
      using e by (intro to_double_bounded) simp_all
    then obtain r where "to_double (of_int e) = Inr r" "0 \<le> r" "r \<le> 100 + (100 + 1) / 2 ^ 20"
      by blast
    then show ?thesis by (intro that[of r]) (simp_all add: float_of_int_def)
  qed
  obtain a where a: "fmul sf (float_literal (7 / 10)) = Inr a" "0 \<le> a" "a \<le> 701 / 10"
  proof -
    have "\<exists>r. fmul sf (float_literal (7 / 10)) = Inr r \<and> 0 \<le> r
            \<and> r \<le> 7009 / 100 + (7009 / 100 + 1) / 2 ^ 20"
      using sf c7 by (intro fmul_bounded[where A = "1001 / 10" and B = "7001 / 10000"]) simp_all
    then obtain r where "fmul sf (float_literal (7 / 10)) = Inr r" "0 \<le> r"
        "r \<le> 7009 / 100 + (7009 / 100 + 1) / 2 ^ 20"
      by blast
    then show ?thesis by (intro that[of r]) simp_all
  qed
  obtain b where b: "fmul af (float_literal (3 / 10)) = Inr b" "0 \<le> b" "b \<le> 301 / 10"
  proof -
    have "\<exists>r. fmul af (float_literal (3 / 10)) = Inr r \<and> 0 \<le> r
            \<and> r \<le> 3005 / 100 + (3005 / 100 + 1) / 2 ^ 20"
      using af c3 by (intro fmul_bounded[where A = "1001 / 10" and B = "3001 / 10000"]) simp_all
    then obtain r where "fmul af (float_literal (3 / 10)) = Inr r" "0 \<le> r"
        "r \<le> 3005 / 100 + (3005 / 100 + 1) / 2 ^ 20"
      by blast
    then show ?thesis by (intro that[of r]) simp_all
  qed
  obtain t where t: "fadd a b = Inr t" "0 \<le> t" "t \<le> 1003 / 10"
  proof -
    have "\<exists>r. to_double (a + b) = Inr r \<and> 0 \<le> r
            \<and> r \<le> 1002 / 10 + (1002 / 10 + 1) / 2 ^ 20"
      using a b by (intro to_double_bounded) simp_all
    then obtain r where "to_double (a + b) = Inr r" "0 \<le> r"
        "r \<le> 1002 / 10 + (1002 / 10 + 1) / 2 ^ 20"
      by blast
    then show ?thesis by (intro that[of r]) (simp_all add: fadd_def)
  qed
  have wr: "(0::rat) \<le> of_int w" "(of_int w :: rat) \<le> 20" using w by simp_all
  obtain k where k: "truediv w 100 = Inr k" "0 \<le> k" "k \<le> of_int w / 100 + 1 / 10000"
  proof -
    have w1: "(0::rat) \<le> of_int w / of_int 100" "(of_int w :: rat) / of_int 100 \<le> 1000"
      using wr by simp_all
    have "round_double (of_int w / of_int 100)
            \<le> of_int w / of_int 100 + (of_int w / of_int 100 + 1) / 2 ^ 20"
      by (rule to_double_small(3)[OF w1])
    moreover have "((of_int w :: rat) / of_int 100 + 1) / 2 ^ 20 \<le> 1 / 10000"
      using wr by simp
    ultimately have "round_double (of_int w / of_int 100) \<le> of_int w / of_int 100 + 1 / 10000"
      by linarith
    then have "round_double (of_int w / of_int 100) \<le> of_int w / 100 + 1 / 10000"
      by simp
    then show ?thesis
      using to_double_small(1,2)[OF w1]
      by (intro that[of "round_double (of_int w / of_int 100)"]) (simp_all add: truediv_def)
  qed
  define K :: rat where "K = of_int w / 100 + 1 / 10000"
  have K: "0 \<le> K" "K \<le> 1" using wr by (simp_all add: K_def)
  have tk: "0 \<le> t * k" "t * k \<le> 1003 / 10 * K"
  proof -
    show "0 \<le> t * k" using t k by simp
    show "t * k \<le> 1003 / 10 * K"
      using t k K unfolding K_def by (intro mult_mono) simp_all
  qed
  have tk2: "t * k \<le> 1000" using tk K by simp
  obtain r where r: "fmul t k = Inr r" "0 \<le> r" "r < of_int w + 1 / 2"
  proof -
    have "round_double (t * k) \<le> t * k + (t * k + 1) / 2 ^ 20"
      by (rule to_double_small(3)[OF tk(1) tk2])
    moreover have "(t * k + 1) / 2 ^ 20 \<le> 1 / 1000" by (rule small_fraction[OF tk2])
    moreover have "1003 / 10 * K \<le> of_int w + 1 / 10"
      using wr by (simp add: K_def)
    ultimately have "round_double (t * k) < of_int w + 1 / 2"
      using tk(2) by linarith
    then show ?thesis
      using to_double_small(1,2)[OF tk(1) tk2]
      by (intro that[of "round_double (t * k)"]) (simp_all add: fmul_def)
  qed
  have "combined_score s e w = Inr (py_round r)"
    by (simp add: combined_score_def rbind_def sf af a b t k r)
  moreover have "0 \<le> py_round r" unfolding py_round_def by (rule rhe_nonneg[OF r(2)])
  moreover have "py_round r \<le> w" unfolding py_round_def by (rule rhe_le[OF r(3)])
  ultimately show ?thesis by blast
qed

lemma to_double_near:
  assumes "0 \<le> x" "x \<le> 1000"
  shows "to_double x = Inr (round_double x)" and "0 \<le> round_double x"
    and "\<bar>round_double x - x\<bar> \<le> (x + 1) / 2 ^ 20"
proof -
  show "to_double x = Inr (round_double x)" by (rule to_double_small(1)[OF assms])
  show "0 \<le> round_double x" by (rule to_double_small(2)[OF assms])
  show "\<bar>round_double x - x\<bar> \<le> (x + 1) / 2 ^ 20"
    using to_double_small(3,4)[OF assms] by linarith
qed

lemma overall_score_exact:
  assumes S: "0 \<le> S" "S \<le> 100" and m: "sum_list (map snd metrics) = S"
  shows "calculate_overall_score metrics = Inr S"
proof -
  have tot: "sum_list (map snd categories) = 100" by (simp add: categories_def)
  define x :: rat where "x = of_int S / of_int 100"
  have x: "0 \<le> x" "x \<le> 1" using S by (simp_all add: x_def)
  then have x1000: "x \<le> 1000" by simp
  define q where "q = round_double x"
  have q: "to_double x = Inr q" "0 \<le> q" "\<bar>q - x\<bar> \<le> (x + 1) / 2 ^ 20"
    unfolding q_def by (rule to_double_near[OF x(1) x1000])+
  have qx: "\<bar>q - x\<bar> \<le> 2 / 2 ^ 20"
  proof -
    have "(x + 1) / 2 ^ 20 \<le> 2 / 2 ^ 20" using x by (intro divide_right_mono) simp_all
    with q(3) show ?thesis by linarith
  qed
  moreover have "(2::rat) / 2 ^ 20 \<le> 1" by simp
  ultimately have q2: "q \<le> 2" using x by linarith
  define h where "h = round_double (of_int 100)"
  have h: "to_double (of_int 100) = Inr h" "0 \<le> h" "\<bar>h - of_int 100\<bar> \<le> (of_int 100 + 1) / 2 ^ 20"
    unfolding h_def by (rule to_double_near; simp)+
  then have h100: "\<bar>h - 100\<bar> \<le> 101 / 2 ^ 20" by simp
  moreover have "(101::rat) / 2 ^ 20 \<le> 1" by simp
  ultimately have h2: "h \<le> 101" by linarith
  have qh: "0 \<le> q * h" "q * h \<le> 1000"
  proof -
    show "0 \<le> q * h" using q(2) h(2) by simp
    have "q * h \<le> 2 * 101" using q(2) q2 h(2) h2 by (intro mult_mono) simp_all
    then show "q * h \<le> 1000" by simp
  qed
  define r where "r = round_double (q * h)"
  have r: "to_double (q * h) = Inr r" "0 \<le> r" "\<bar>r - q * h\<bar> \<le> (q * h + 1) / 2 ^ 20"
    unfolding r_def by (rule to_double_near[OF qh])+
  have r1: "\<bar>r - q * h\<bar> \<le> 1 / 1000"
    using r(3) small_fraction[OF qh(2)] by linarith
  have d: "q * h - of_int S = q * (h - 100) + 100 * (q - x)"
    by (simp add: x_def algebra_simps)
  have "\<bar>q * (h - 100)\<bar> \<le> 2 * (101 / 2 ^ 20)"
  proof -
    have "\<bar>q * (h - 100)\<bar> = \<bar>q\<bar> * \<bar>h - 100\<bar>" by (rule abs_mult)
    also have "\<dots> = q * \<bar>h - 100\<bar>" using q(2) by simp
    also have "\<dots> \<le> 2 * (101 / 2 ^ 20)" using q(2) q2 h100 by (intro mult_mono) simp_all
    finally show ?thesis .
  qed
  moreover have "\<bar>100 * (q - x)\<bar> \<le> 100 * (2 / 2 ^ 20)"
  proof -
    have "\<bar>100 * (q - x)\<bar> = \<bar>100\<bar> * \<bar>q - x\<bar>" by (rule abs_mult)
    also have "\<dots> = 100 * \<bar>q - x\<bar>" by simp
    also have "\<dots> \<le> 100 * (2 / 2 ^ 20)" using qx by (intro mult_left_mono) simp_all
    finally show ?thesis .
  qed
  ultimately have "\<bar>q * h - of_int S\<bar> \<le> 2 * (101 / 2 ^ 20) + 100 * (2 / 2 ^ 20)"
    unfolding d by linarith
  moreover have "(2::rat) * (101 / 2 ^ 20) + 100 * (2 / 2 ^ 20) \<le> 1 / 1000" by simp
  ultimately have "\<bar>q * h - of_int S\<bar> \<le> 1 / 1000" by linarith
  with r1 have "\<bar>r - of_int S\<bar> < 1 / 2" by linarith
  then have "py_round r = S" unfolding py_round_def by (rule rhe_eqI)
  then show ?thesis
    using q(1) h(1) r(1)
    by (simp add: calculate_overall_score_def rbind_def truediv_def float_of_int_def fmul_def
        tot m x_def)
qed

section \<open>The static rubric scorer\<close>

text \<open>
  Claim C1. When the parser rejects the source text with a syntax error, the static
  scorer for Python returns the score 0 for each of the six categories and raises
  nothing.
\<close>

theorem analyze_python_fails_closed:
  assumes "parse code = Inl SyntaxError"
  shows "analyze_python parse code =
     Inr [(''naming'', 0), (''modularity'', 0), (''comments'', 0),
          (''formatting'', 0), (''reusability'', 0), (''best_practices'', 0)]"
  using assms by (simp add: analyze_python_def categories_def)

theorem analyze_python_fails_closed_witness:
  "sample_parse ''def f(:'' = Inl SyntaxError \<and>
   analyze_python sample_parse ''def f(:'' =
     Inr [(''naming'', 0), (''modularity'', 0), (''comments'', 0),
          (''formatting'', 0), (''reusability'', 0), (''best_practices'', 0)]"
proof -
  have h: "sample_parse ''def f(:'' = Inl SyntaxError"
    by (simp add: sample_parse_def plain_source_def documented_source_def)
  show ?thesis
    using h analyze_python_fails_closed[of sample_parse "''def f(:''"] by simp
qed

text \<open>
  Claim C5. On a source text that parses, the comments score is
  \<open>min(20, 20 + 5 * count)\<close>, where \<open>count\<close> is the number of expression statements
  in the tree whose value is a string constant; with at least one such statement the
  score is 20, however many there are.
\<close>

theorem check_comments_saturates:
  assumes "parse code = Inr tree"
  shows "check_comments parse code = Inr (min 20 (20 + 5 * int (docstring_count tree)))
     \<and> (1 \<le> docstring_count tree \<longrightarrow> check_comments parse code = Inr 20)
     \<and> (\<exists>d. analyze_python parse code = Inr d
            \<and> map_of d ''comments'' = Some (min 20 (20 + 5 * int (docstring_count tree))))"
  using assms
  by (simp add: check_comments_def Let_def walk_docstrings analyze_python_def)

theorem check_comments_saturates_witness:
  "sample_parse documented_source = Inr documented_tree
   \<and> docstring_count documented_tree = 1
   \<and> check_comments sample_parse documented_source = Inr 20"
proof -
  have h: "sample_parse documented_source = Inr documented_tree"
    by (simp add: sample_parse_def plain_source_def documented_source_def)
  have c: "docstring_count documented_tree = 1"
    by (simp add: documented_tree_def)
  show ?thesis
    using h c check_comments_saturates[of sample_parse documented_source documented_tree]
    by simp
qed

text \<open>
  Claim C10. On a source text that parses, the comments score is 20 whatever the tree
  is, also with no string statement in it: the base score is already the cap.
\<close>

theorem check_comments_constant:
  assumes "parse code = Inr tree"
  shows "check_comments parse code = Inr 20
     \<and> (\<exists>d. analyze_python parse code = Inr d \<and> map_of d ''comments'' = Some 20)"
  using assms
  by (simp add: check_comments_parsed[of parse code tree]
      analyze_python_parsed[of parse code tree])

theorem check_comments_constant_witness:
  "sample_parse plain_source = Inr plain_tree
   \<and> docstring_count plain_tree = 0
   \<and> check_comments sample_parse plain_source = Inr 20"
proof -
  have h: "sample_parse plain_source = Inr plain_tree"
    by (simp add: sample_parse_def)
  have c: "docstring_count plain_tree = 0"
    by (simp add: plain_tree_def)
  show ?thesis
    using h c check_comments_constant[of sample_parse plain_source plain_tree] by simp
qed

text \<open>
  Claim C8. On a source text that parses, each of the six static scores lies between 0
  and the maximum of its category: naming 10, modularity 20, comments 20, formatting
  15, reusability 15, best practices 20.
\<close>

theorem static_scores_in_range:
  assumes "parse code = Inr tree"
  shows "\<exists>d. analyze_python parse code = Inr d
     \<and> map fst d = map fst categories
     \<and> (\<forall>(c, w) \<in> set categories. \<exists>v. map_of d c = Some v \<and> 0 \<le> v \<and> v \<le> w)"
  using check_naming_conventions_range[of tree] check_modularity_range[of tree]
    check_formatting_range[of code] check_reusability_range[of tree]
    check_best_practices_range[of tree]
  by (simp add: analyze_python_parsed[of parse code tree, OF assms] categories_def)

theorem static_scores_in_range_witness:
  "sample_parse plain_source = Inr plain_tree
   \<and> (\<exists>d. analyze_python sample_parse plain_source = Inr d
     \<and> map fst d = map fst categories
     \<and> (\<forall>(c, w) \<in> set categories. \<exists>v. map_of d c = Some v \<and> 0 \<le> v \<and> v \<le> w))"
proof -
  have h: "sample_parse plain_source = Inr plain_tree"
    by (simp add: sample_parse_def)
  show ?thesis
    using h static_scores_in_range[of sample_parse plain_source plain_tree] by simp
qed

section \<open>The score combiner and the overall score\<close>

lemma map_result_Inr:
  assumes "\<forall>x \<in> set xs. f x = Inr (g x)"
  shows "map_result f xs = Inr (map g xs)"
  using assms by (induction xs) simp_all

lemma dict_get_absent: "map_of d k = None \<Longrightarrow> dict_get d k dflt = dflt"
  by (simp add: dict_get_def)

lemma category_weight_range: "(c, w) \<in> set categories \<Longrightarrow> 0 \<le> w \<and> w \<le> 20"
  by (auto simp: categories_def)

lemma mult_error:
  fixes a b A B :: rat
  assumes "\<bar>a - A\<bar> \<le> da" "\<bar>b - B\<bar> \<le> db" "0 \<le> a" "a \<le> Ma" "\<bar>B\<bar> \<le> MB"
  shows "\<bar>a * b - A * B\<bar> \<le> Ma * db + MB * da"
proof -
  have db: "0 \<le> db" and da: "0 \<le> da" using assms(1,2) by linarith+
  have e: "a * b - A * B = a * (b - B) + B * (a - A)" by (simp add: algebra_simps)
  have "\<bar>a * (b - B)\<bar> = \<bar>a\<bar> * \<bar>b - B\<bar>" by (rule abs_mult)
  also have "\<dots> = a * \<bar>b - B\<bar>" using assms(3) by simp
  also have "\<dots> \<le> Ma * db" using assms(2,3,4) db by (intro mult_mono) simp_all
  finally have 1: "\<bar>a * (b - B)\<bar> \<le> Ma * db" .
  have "\<bar>B * (a - A)\<bar> = \<bar>B\<bar> * \<bar>a - A\<bar>" by (rule abs_mult)
  also have "\<dots> \<le> MB * da" using assms(1,5) da by (intro mult_mono) simp_all
  finally have 2: "\<bar>B * (a - A)\<bar> \<le> MB * da" .
  show ?thesis unfolding e using 1 2 by linarith
qed

lemma scaled_score_close:
  fixes S c :: rat
  assumes S: "0 \<le> S" "S \<le> 100" and c: "0 \<le> c" "c \<le> 7 / 10"
  shows "\<exists>sf a. to_double S = Inr sf \<and> fmul sf (float_literal c) = Inr a
     \<and> 0 \<le> a \<and> \<bar>a - S * c\<bar> \<le> 375 / 2 ^ 20"
proof -
  have S1000: "S \<le> 1000" using S by simp
  define sf where "sf = round_double S"
  have sf: "to_double S = Inr sf" "0 \<le> sf" "\<bar>sf - S\<bar> \<le> (S + 1) / 2 ^ 20"
    unfolding sf_def by (rule to_double_near[OF S(1) S1000])+
  have "(S + 1) / 2 ^ 20 \<le> 101 / 2 ^ 20" using S by (intro divide_right_mono) simp_all
  with sf(3) have sfe: "\<bar>sf - S\<bar> \<le> 101 / 2 ^ 20" by linarith
  have "(101::rat) / 2 ^ 20 \<le> 1" by simp
  with sfe S have sf101: "sf \<le> 101" by linarith
  define k where "k = float_literal c"
  have c1000: "c \<le> 1000" using c by simp
  have k: "0 \<le> k" "\<bar>k - c\<bar> \<le> (c + 1) / 2 ^ 20"
    unfolding k_def float_literal_def by (rule to_double_near[OF c(1) c1000])+
  have "(c + 1) / 2 ^ 20 \<le> 2 / 2 ^ 20" using c by (intro divide_right_mono) simp_all
  with k(2) have ke: "\<bar>k - c\<bar> \<le> 2 / 2 ^ 20" by linarith
  have "(2::rat) / 2 ^ 20 \<le> 3 / 10" by simp
  with ke c have k1: "k \<le> 1" by linarith
  have ca: "\<bar>c\<bar> \<le> 7 / 10" using c by simp
  have pe: "\<bar>sf * k - S * c\<bar> \<le> 101 * (2 / 2 ^ 20) + 7 / 10 * (101 / 2 ^ 20)"
    by (rule mult_error[OF sfe ke sf(2) sf101 ca])
  have p0: "0 \<le> sf * k" using sf(2) k(1) by simp
  have "sf * k \<le> 101 * 1" using sf(2) sf101 k(1) k1 by (intro mult_mono) simp_all
  then have p101: "sf * k \<le> 101" by simp
  then have p1000: "sf * k \<le> 1000" by simp
  define a where "a = round_double (sf * k)"
  have a: "to_double (sf * k) = Inr a" "0 \<le> a" "\<bar>a - sf * k\<bar> \<le> (sf * k + 1) / 2 ^ 20"
    unfolding a_def by (rule to_double_near[OF p0 p1000])+
  have "(sf * k + 1) / 2 ^ 20 \<le> 102 / 2 ^ 20" using p101 by (intro divide_right_mono) simp_all
  with a(3) have ae: "\<bar>a - sf * k\<bar> \<le> 102 / 2 ^ 20" by linarith
  have n: "(101::rat) * (2 / 2 ^ 20) + 7 / 10 * (101 / 2 ^ 20) + 102 / 2 ^ 20 \<le> 375 / 2 ^ 20"
    by simp
  have "\<bar>a - S * c\<bar> \<le> 375 / 2 ^ 20" using pe ae n by linarith
  then show ?thesis
    using sf(1) a(1,2) by (auto simp: fmul_def k_def)
qed

lemma combined_score_close:
  assumes s: "0 \<le> s" "s \<le> 100" and e: "0 \<le> e" "e \<le> 100" and w: "0 \<le> w" "w \<le> 20"
  shows "\<exists>r. combined_score s e w = Inr (py_round r)
     \<and> \<bar>r - of_int ((7 * s + 3 * e) * w) / 1000\<bar> \<le> 395 / 2 ^ 20"
proof -
  define S :: rat where "S = of_int s"
  define E :: rat where "E = of_int e"
  define W :: rat where "W = of_int w / of_int 100"
  have S: "0 \<le> S" "S \<le> 100" using s by (simp_all add: S_def)
  have E: "0 \<le> E" "E \<le> 100" using e by (simp_all add: E_def)
  have W: "0 \<le> W" "W \<le> 1 / 5" using w by (simp_all add: W_def)
  obtain sf a where a: "to_double S = Inr sf" "fmul sf (float_literal (7 / 10)) = Inr a"
      "0 \<le> a" "\<bar>a - S * (7 / 10)\<bar> \<le> 375 / 2 ^ 20"
    using scaled_score_close[OF S, of "7 / 10"] by auto
  obtain af b where b: "to_double E = Inr af" "fmul af (float_literal (3 / 10)) = Inr b"
      "0 \<le> b" "\<bar>b - E * (3 / 10)\<bar> \<le> 375 / 2 ^ 20"
    using scaled_score_close[OF E, of "3 / 10"] by auto
  define X where "X = S * (7 / 10) + E * (3 / 10)"
  have X: "0 \<le> X" "X \<le> 100" using S E by (simp_all add: X_def)
  have u: "(375::rat) / 2 ^ 20 \<le> 1 / 2" by simp
  have "(375::rat) / 2 ^ 20 + 375 / 2 ^ 20 \<le> 750 / 2 ^ 20" by simp
  then have abe: "\<bar>a + b - X\<bar> \<le> 750 / 2 ^ 20"
    unfolding X_def using a(4) b(4) by linarith
  have ab0: "0 \<le> a + b" using a(3) b(3) by simp
  have ab101: "a + b \<le> 101" using abe X u by linarith
  then have ab1000: "a + b \<le> 1000" by simp
  define t where "t = round_double (a + b)"
  have t: "to_double (a + b) = Inr t" "0 \<le> t" "\<bar>t - (a + b)\<bar> \<le> (a + b + 1) / 2 ^ 20"
    unfolding t_def by (rule to_double_near[OF ab0 ab1000])+
  have "(a + b + 1) / 2 ^ 20 \<le> 102 / 2 ^ 20" using ab101 by (intro divide_right_mono) simp_all
  with t(3) abe have te: "\<bar>t - X\<bar> \<le> 852 / 2 ^ 20" by linarith
  have "(852::rat) / 2 ^ 20 \<le> 1" by simp
  with te X have t101: "t \<le> 101" by linarith
  have W1000: "W \<le> 1000" using W by simp
  define k where "k = round_double W"
  have k: "to_double W = Inr k" "0 \<le> k" "\<bar>k - W\<bar> \<le> (W + 1) / 2 ^ 20"
    unfolding k_def by (rule to_double_near[OF W(1) W1000])+
  have "(W + 1) / 2 ^ 20 \<le> 2 / 2 ^ 20" using W by (intro divide_right_mono) simp_all
  with k(3) have ke: "\<bar>k - W\<bar> \<le> 2 / 2 ^ 20" by linarith
  have Wa: "\<bar>W\<bar> \<le> 1 / 5" using W by simp
  have pe: "\<bar>t * k - X * W\<bar> \<le> 101 * (2 / 2 ^ 20) + 1 / 5 * (852 / 2 ^ 20)"
    by (rule mult_error[OF te ke t(2) t101 Wa])
  have XW: "X * W \<le> 100 * (1 / 5)" using X W by (intro mult_mono) simp_all
  have n1: "(101::rat) * (2 / 2 ^ 20) + 1 / 5 * (852 / 2 ^ 20) \<le> 1" by simp
  have p0: "0 \<le> t * k" using t(2) k(2) by simp
  have p21: "t * k \<le> 21" using pe XW n1 by linarith
  then have p1000: "t * k \<le> 1000" by simp
  define r where "r = round_double (t * k)"
  have r: "to_double (t * k) = Inr r" "\<bar>r - t * k\<bar> \<le> (t * k + 1) / 2 ^ 20"
    unfolding r_def by (rule to_double_near(1)[OF p0 p1000], rule to_double_near(3)[OF p0 p1000])
  have "(t * k + 1) / 2 ^ 20 \<le> 22 / 2 ^ 20" using p21 by (intro divide_right_mono) simp_all
  with r(2) have re: "\<bar>r - t * k\<bar> \<le> 22 / 2 ^ 20" by linarith
  have n2: "(101::rat) * (2 / 2 ^ 20) + 1 / 5 * (852 / 2 ^ 20) + 22 / 2 ^ 20 \<le> 395 / 2 ^ 20"
    by simp
  have "\<bar>r - X * W\<bar> \<le> 395 / 2 ^ 20" using pe re n2 by linarith
  moreover have "X * W = of_int ((7 * s + 3 * e) * w) / 1000"
    by (simp add: X_def W_def S_def E_def algebra_simps)
  moreover have "combined_score s e w = Inr (py_round r)"
    using a(1,2) b(1,2) t(1) k(1) r(1)
    by (simp add: combined_score_def float_of_int_def fadd_def fmul_def truediv_def
        S_def E_def W_def)
  ultimately show ?thesis by auto
qed

lemma exact_combined_eq:
  "exact_combined s e w = round_half_even (of_int ((7 * s + 3 * e) * w) / 1000)"
proof -
  have "(of_int s * (7 / 10) + of_int e * (3 / 10)) * (of_int w / 100)
      = (of_int ((7 * s + 3 * e) * w) / 1000 :: rat)"
    by (simp add: algebra_simps)
  then show ?thesis by (simp only: exact_combined_def)
qed

lemma nearest_thousandth:
  assumes "N mod 1000 \<noteq> (500::int)"
  shows "\<exists>n. \<bar>(of_int N / 1000 :: rat) - of_int n\<bar> \<le> 499 / 1000"
proof -
  define q where "q = N div 1000"
  define m where "m = N mod 1000"
  have N: "N = 1000 * q + m" by (simp add: q_def m_def)
  have m: "0 \<le> m" "m < 1000" "m \<noteq> 500" using assms by (simp_all add: m_def)
  have x: "(of_int N / 1000 :: rat) = of_int q + of_int m / 1000" by (simp add: N)
  show ?thesis
  proof (cases "m < 500")
    case True
    then have "m \<le> 499" by simp
    then have "(of_int m :: rat) \<le> 499" by (metis of_int_le_iff of_int_numeral)
    moreover have "(0::rat) \<le> of_int m" using m(1) by simp
    ultimately have "\<bar>(of_int N / 1000 :: rat) - of_int q\<bar> \<le> 499 / 1000"
      unfolding x by simp
    then show ?thesis ..
  next
    case False
    with m have "501 \<le> m" by simp
    then have "(501::rat) \<le> of_int m" by (metis of_int_le_iff of_int_numeral)
    moreover have "(of_int m :: rat) < 1000" using m(2) by (metis of_int_less_iff of_int_numeral)
    ultimately have "\<bar>(of_int N / 1000 :: rat) - of_int (q + 1)\<bar> \<le> 499 / 1000"
      unfolding x by simp
    then show ?thesis ..
  qed
qed

lemma combined_score_exact:
  assumes s: "0 \<le> s" "s \<le> 100" and e: "0 \<le> e" "e \<le> 100" and w: "0 \<le> w" "w \<le> 20"
  shows "\<exists>v. combined_score s e w = Inr v
     \<and> \<bar>v - exact_combined s e w\<bar> \<le> 1
     \<and> (((7 * s + 3 * e) * w) mod 1000 \<noteq> 500 \<longrightarrow> v = exact_combined s e w)"
proof -
  define x :: rat where "x = of_int ((7 * s + 3 * e) * w) / 1000"
  obtain r where r: "combined_score s e w = Inr (py_round r)" "\<bar>r - x\<bar> \<le> 395 / 2 ^ 20"
    using combined_score_close[OF assms] unfolding x_def by blast
  have small: "(395::rat) / 2 ^ 20 < 1 / 1000" by simp
  have ex: "exact_combined s e w = round_half_even x"
    by (simp only: exact_combined_eq x_def)
  have "\<bar>of_int (py_round r) - r\<bar> \<le> 1 / 2" unfolding py_round_def by (rule rhe_err)
  moreover have "\<bar>of_int (exact_combined s e w) - x\<bar> \<le> 1 / 2" unfolding ex by (rule rhe_err)
  ultimately have "\<bar>(of_int (py_round r) :: rat) - of_int (exact_combined s e w)\<bar> < 2"
    using r(2) small by linarith
  then have "\<bar>(of_int (py_round r - exact_combined s e w) :: rat)\<bar> < of_int 2" by simp
  then have "\<bar>py_round r - exact_combined s e w\<bar> < 2"
    by (simp only: of_int_abs[symmetric] of_int_less_iff)
  then have near: "\<bar>py_round r - exact_combined s e w\<bar> \<le> 1" by simp
  have tie: "py_round r = exact_combined s e w"
    if nt: "((7 * s + 3 * e) * w) mod 1000 \<noteq> 500"
  proof -
    obtain n where n: "\<bar>x - of_int n\<bar> \<le> 499 / 1000"
      using nearest_thousandth[OF nt] unfolding x_def by blast
    have "\<bar>r - of_int n\<bar> < 1 / 2" using n r(2) small by linarith
    then have "py_round r = n" unfolding py_round_def by (rule rhe_eqI)
    moreover have "\<bar>x - of_int n\<bar> < 1 / 2" using n by linarith
    then have "round_half_even x = n" by (rule rhe_eqI)
    ultimately show ?thesis by (simp add: ex)
  qed
  show ?thesis using r(1) near tie by blast
qed

lemma exact_tie: "exact_combined 1 31 15 = 2"
  by code_simp

lemma tie_step_1: "float_of_int 1 = Inr 1"
  by code_simp

lemma tie_step_2:
  "fmul 1 (3152519739159347 / 4503599627370496) = Inr (3152519739159347 / 4503599627370496)"
  by code_simp

lemma tie_step_3: "float_of_int 31 = Inr 31"
  by code_simp

lemma tie_step_4:
  "fmul 31 (5404319552844595 / 18014398509481984) = Inr (5235434566818201 / 562949953421312)"
  by code_simp

lemma tie_step_5:
  "fadd (3152519739159347 / 4503599627370496) (5235434566818201 / 562949953421312)
     = Inr (5629499534213119 / 562949953421312)"
  by code_simp

lemma tie_step_6: "truediv 15 100 = Inr (5404319552844595 / 36028797018963968)"
  by code_simp

lemma tie_step_7:
  "fmul (5629499534213119 / 562949953421312) (5404319552844595 / 36028797018963968)
     = Inr (6755399441055743 / 4503599627370496)"
  by code_simp

lemma tie_step_8: "py_round (6755399441055743 / 4503599627370496) = 1"
  by code_simp

lemma tie_literal_7: "float_literal (7 / 10) = 3152519739159347 / 4503599627370496"
  by code_simp

lemma tie_literal_3: "float_literal (3 / 10) = 5404319552844595 / 18014398509481984"
  by code_simp

lemma exact_sample: "exact_combined 13 90 15 = 5"
  by code_simp

text \<open>
  Claim C2, amended. For every category with maximum weight \<open>w\<close> and all integers
  \<open>s\<close>, \<open>e\<close> between 0 and 100, the combiner evaluates
  \<open>round((s * 0.7 + e * 0.3) * (w / 100))\<close> in binary64 arithmetic without an exception.
  The result lies between 0 and \<open>w\<close>; it is the exact value of the formula rounded to
  the nearest integer whenever that value is not halfway between two integers, that is
  when \<open>(7 * s + 3 * e) * w mod 1000\<close> is not 500, and within 1 of it otherwise. The
  combiner applies the formula to each of the six categories, reading a category that
  is absent from the external scores as \<open>e = 0\<close>.
\<close>

theorem combined_score_rounds_formula:
  "((c, w) \<in> set categories \<and> 0 \<le> s \<and> s \<le> 100 \<and> 0 \<le> e \<and> e \<le> 100
      \<longrightarrow> (\<exists>v. combined_score s e w = Inr v \<and> 0 \<le> v \<and> v \<le> w
             \<and> \<bar>v - exact_combined s e w\<bar> \<le> 1
             \<and> (((7 * s + 3 * e) * w) mod 1000 \<noteq> 500 \<longrightarrow> v = exact_combined s e w)))
   \<and> ((\<forall>k \<in> set (map fst categories).
          0 \<le> dict_get static_metrics k 0 \<and> dict_get static_metrics k 0 \<le> 100
          \<and> 0 \<le> dict_get ai_metrics k 0 \<and> dict_get ai_metrics k 0 \<le> 100)
      \<longrightarrow> (\<exists>combined. combine_metrics static_metrics ai_metrics = Inr combined
             \<and> map fst combined = map fst categories
             \<and> (\<forall>(k, m) \<in> set categories. \<exists>v. map_of combined k = Some v
                   \<and> combined_score (dict_get static_metrics k 0) (dict_get ai_metrics k 0) m
                       = Inr v
                   \<and> 0 \<le> v \<and> v \<le> m
                   \<and> (map_of ai_metrics k = None
                        \<longrightarrow> combined_score (dict_get static_metrics k 0) 0 m = Inr v))))"
proof (intro conjI impI)
  assume a: "(c, w) \<in> set categories \<and> 0 \<le> s \<and> s \<le> 100 \<and> 0 \<le> e \<and> e \<le> 100"
  then have r: "0 \<le> s" "s \<le> 100" "0 \<le> e" "e \<le> 100" "0 \<le> w" "w \<le> 20"
    using category_weight_range[of c w] by simp_all
  obtain v where v: "combined_score s e w = Inr v" "0 \<le> v" "v \<le> w"
    using combined_score_bounds[OF r] by blast
  obtain v' where v': "combined_score s e w = Inr v'" "\<bar>v' - exact_combined s e w\<bar> \<le> 1"
      "((7 * s + 3 * e) * w) mod 1000 \<noteq> 500 \<longrightarrow> v' = exact_combined s e w"
    using combined_score_exact[OF r] by blast
  from v(1) v'(1) have "v' = v" by simp
  with v v' show "\<exists>v. combined_score s e w = Inr v \<and> 0 \<le> v \<and> v \<le> w
             \<and> \<bar>v - exact_combined s e w\<bar> \<le> 1
             \<and> (((7 * s + 3 * e) * w) mod 1000 \<noteq> 500 \<longrightarrow> v = exact_combined s e w)"
    by blast
next
  assume r: "\<forall>k \<in> set (map fst categories).
          0 \<le> dict_get static_metrics k 0 \<and> dict_get static_metrics k 0 \<le> 100
          \<and> 0 \<le> dict_get ai_metrics k 0 \<and> dict_get ai_metrics k 0 \<le> 100"
  define val where
    "val k m = projr (combined_score (dict_get static_metrics k 0) (dict_get ai_metrics k 0) m)"
    for k m
  have v: "combined_score (dict_get static_metrics k 0) (dict_get ai_metrics k 0) m
             = Inr (val k m) \<and> 0 \<le> val k m \<and> val k m \<le> m"
    if "(k, m) \<in> set categories" for k m
  proof -
    from that have "k \<in> set (map fst categories)" by force
    with r have "0 \<le> dict_get static_metrics k 0" "dict_get static_metrics k 0 \<le> 100"
      "0 \<le> dict_get ai_metrics k 0" "dict_get ai_metrics k 0 \<le> 100"
      by blast+
    moreover have "0 \<le> m" "m \<le> 20" using category_weight_range[OF that] by simp_all
    ultimately have "\<exists>v. combined_score (dict_get static_metrics k 0)
        (dict_get ai_metrics k 0) m = Inr v \<and> 0 \<le> v \<and> v \<le> m"
      by (rule combined_score_bounds)
    then obtain x where "combined_score (dict_get static_metrics k 0)
        (dict_get ai_metrics k 0) m = Inr x" "0 \<le> x" "x \<le> m"
      by blast
    then show ?thesis by (simp add: val_def)
  qed
  have "combine_metrics static_metrics ai_metrics
          = Inr (map (\<lambda>(k, m). (k, val k m)) categories)"
    unfolding combine_metrics_def
  proof (rule map_result_Inr, rule ballI)
    fix x assume x: "x \<in> set categories"
    obtain k m where km: "x = (k, m)" by (cases x)
    from v[of k m] x km show "(case x of (category, weight) \<Rightarrow>
          rbind (combined_score (dict_get static_metrics category 0)
                  (dict_get ai_metrics category 0) weight)
                (\<lambda>v. Inr (category, v)))
        = Inr (case x of (k, m) \<Rightarrow> (k, val k m))"
      by simp
  qed
  moreover have "map fst (map (\<lambda>(k, m). (k, val k m)) categories) = map fst categories"
    by (simp add: categories_def)
  moreover have "\<exists>x. map_of (map (\<lambda>(k, m). (k, val k m)) categories) k = Some x
        \<and> combined_score (dict_get static_metrics k 0) (dict_get ai_metrics k 0) m = Inr x
        \<and> 0 \<le> x \<and> x \<le> m
        \<and> (map_of ai_metrics k = None
              \<longrightarrow> combined_score (dict_get static_metrics k 0) 0 m = Inr x)"
    if km: "(k, m) \<in> set categories" for k m
  proof -
    have "distinct (map fst (map (\<lambda>(k, m). (k, val k m)) categories))"
      by (simp add: categories_def)
    moreover have "(k, val k m) \<in> set (map (\<lambda>(k, m). (k, val k m)) categories)"
    proof -
      have "(\<lambda>(k, m). (k, val k m)) (k, m) \<in> (\<lambda>(k, m). (k, val k m)) ` set categories"
        using km by (rule imageI)
      then show ?thesis by simp
    qed
    ultimately have "map_of (map (\<lambda>(k, m). (k, val k m)) categories) k = Some (val k m)"
      by (rule map_of_is_SomeI)
    moreover have "combined_score (dict_get static_metrics k 0) 0 m = Inr (val k m)"
      if "map_of ai_metrics k = None"
      using v[OF km] dict_get_absent[OF that, of 0] by simp
    ultimately show ?thesis using v[OF km] by (intro exI[of _ "val k m"]) simp
  qed
  ultimately show "\<exists>combined. combine_metrics static_metrics ai_metrics = Inr combined
             \<and> map fst combined = map fst categories
             \<and> (\<forall>(k, m) \<in> set categories. \<exists>v. map_of combined k = Some v
                   \<and> combined_score (dict_get static_metrics k 0) (dict_get ai_metrics k 0) m
                       = Inr v
                   \<and> 0 \<le> v \<and> v \<le> m
                   \<and> (map_of ai_metrics k = None
                        \<longrightarrow> combined_score (dict_get static_metrics k 0) 0 m = Inr v))"
    by blast
qed

theorem combined_score_rounds_formula_witness:
  "((''formatting'', 15) \<in> set categories \<and> (0::int) \<le> 13 \<and> (13::int) \<le> 100
      \<and> (0::int) \<le> 90 \<and> (90::int) \<le> 100)
   \<and> ((7 * 13 + 3 * 90) * 15) mod 1000 \<noteq> (500::int)
   \<and> combined_score 13 90 15 = Inr 5
   \<and> (\<exists>combined.
          combine_metrics [(''naming'', 10::int), (''formatting'', 13)] [(''naming'', 85::int)]
            = Inr combined
          \<and> map fst combined = map fst categories)"
proof -
  have a: "(''formatting'', 15) \<in> set categories \<and> (0::int) \<le> 13 \<and> (13::int) \<le> 100
      \<and> (0::int) \<le> 90 \<and> (90::int) \<le> 100"
    by (simp add: categories_def)
  have t: "((7 * 13 + 3 * 90) * 15) mod 1000 \<noteq> (500::int)" by simp
  have b: "\<forall>k \<in> set (map fst categories).
          0 \<le> dict_get [(''naming'', 10::int), (''formatting'', 13)] k (0::int)
          \<and> dict_get [(''naming'', 10::int), (''formatting'', 13)] k (0::int) \<le> 100
          \<and> 0 \<le> dict_get [(''naming'', 85::int)] k (0::int)
          \<and> dict_get [(''naming'', 85::int)] k (0::int) \<le> 100"
    by (simp add: categories_def dict_get_def)
  note r = combined_score_rounds_formula[of "''formatting''" 15 13 90
        "[(''naming'', 10::int), (''formatting'', 13)]" "[(''naming'', 85::int)]"]
  from r a t have "\<exists>v. combined_score 13 90 15 = Inr v \<and> v = exact_combined 13 90 15"
    by blast
  then have c: "combined_score 13 90 15 = Inr 5" by (simp add: exact_sample)
  from r b have d: "\<exists>combined.
          combine_metrics [(''naming'', 10::int), (''formatting'', 13)] [(''naming'', 85::int)]
            = Inr combined
          \<and> map fst combined = map fst categories"
    by blast
  from a t c d show ?thesis by (intro conjI) simp_all
qed

text \<open>
  Claim C2 as worded, with the formula in exact arithmetic, fails at a tie: for
  \<open>s = 1\<close>, \<open>e = 31\<close> and the weight 15 the exact value is 1.5, which rounds to 2, and
  the combiner returns 1, since the binary64 product is just below 1.5.
\<close>

theorem combined_score_tie_counterexample:
  "combined_score 1 31 15 = Inr 1 \<and> exact_combined 1 31 15 = 2"
proof
  show "combined_score 1 31 15 = Inr 1"
    unfolding combined_score_def tie_step_1 tie_step_3 tie_literal_7 tie_literal_3 rbind_Inr
      tie_step_2 tie_step_4 tie_step_5 tie_step_6 tie_step_7 tie_step_8 ..
  show "exact_combined 1 31 15 = 2" by (rule exact_tie)
qed

lemma sum_list_values_le:
  fixes metrics :: "int dict"
  assumes "\<forall>(k, v) \<in> set metrics. v \<le> f k"
  shows "sum_list (map snd metrics) \<le> sum_list (map f (map fst metrics))"
  using assms by (induction metrics) (auto intro: add_mono)

lemma sum_list_values_nonneg:
  fixes metrics :: "int dict"
  assumes "\<forall>(k, v) \<in> set metrics. 0 \<le> v"
  shows "0 \<le> sum_list (map snd metrics)"
  using assms by (induction metrics) auto

lemma sum_list_mset_cong:
  fixes f :: "'a \<Rightarrow> int"
  assumes "mset xs = mset ys"
  shows "sum_list (map f xs) = sum_list (map f ys)"
proof -
  have "sum_list (map f xs) = sum_mset (image_mset f (mset xs))"
    by (simp flip: sum_mset_sum_list)
  also have "\<dots> = sum_mset (image_mset f (mset ys))" by (simp only: assms)
  also have "\<dots> = sum_list (map f ys)" by (simp flip: sum_mset_sum_list)
  finally show ?thesis .
qed

text \<open>
  Claim C3. For a combined score set that holds the six categories, each value between 0
  and the maximum of its category, the overall score
  \<open>round(sum(values) / sum(maxima) * 100)\<close> is the sum of the six values, the maxima
  sum to 100, and the score is an integer between 0 and 100.
\<close>

theorem overall_score_is_sum:
  assumes keys: "mset (map fst metrics) = mset (map fst categories)"
    and vals: "\<forall>(k, v) \<in> set metrics. 0 \<le> v \<and> v \<le> dict_get categories k 0"
  shows "calculate_overall_score metrics = Inr (sum_list (map snd metrics))
     \<and> 0 \<le> sum_list (map snd metrics) \<and> sum_list (map snd metrics) \<le> 100
     \<and> sum_list (map snd categories) = 100"
proof -
  have lo: "0 \<le> sum_list (map snd metrics)"
    using vals by (intro sum_list_values_nonneg) auto
  have "sum_list (map snd metrics)
          \<le> sum_list (map (\<lambda>k. dict_get categories k 0) (map fst metrics))"
    using vals by (intro sum_list_values_le) auto
  also have "\<dots> = sum_list (map (\<lambda>k. dict_get categories k 0) (map fst categories))"
    by (rule sum_list_mset_cong[OF keys])
  also have "\<dots> = 100" by (simp add: categories_def dict_get_def)
  finally have hi: "sum_list (map snd metrics) \<le> 100" .
  have "calculate_overall_score metrics = Inr (sum_list (map snd metrics))"
    by (rule overall_score_exact[OF lo hi refl])
  moreover have "sum_list (map snd categories) = 100" by (simp add: categories_def)
  ultimately show ?thesis using lo hi by simp
qed

theorem overall_score_is_sum_witness:
  "calculate_overall_score
     [(''naming'', 9), (''modularity'', 17), (''comments'', 18), (''formatting'', 12),
      (''reusability'', 14), (''best_practices'', 17)] = Inr 87"
proof -
  have k: "mset (map fst [(''naming'', 9::int), (''modularity'', 17), (''comments'', 18),
      (''formatting'', 12), (''reusability'', 14), (''best_practices'', 17)])
      = mset (map fst categories)"
    by (simp add: categories_def)
  have v: "\<forall>(k, v) \<in> set [(''naming'', 9::int), (''modularity'', 17), (''comments'', 18),
      (''formatting'', 12), (''reusability'', 14), (''best_practices'', 17)].
      0 \<le> v \<and> v \<le> dict_get categories k 0"
    by (simp add: categories_def dict_get_def)
  show ?thesis using overall_score_is_sum[OF k v] by simp
qed

section \<open>The recommendation combiner and the review operation\<close>








lemma normalised_not_jsx: "dict_get language_map language language \<noteq> ''jsx''"
  by (simp add: dict_get_def language_map_def)

text \<open>
  Claim C9. When the language, after the aliases \<open>py\<close>, \<open>js\<close> and \<open>jsx\<close> are
  replaced, is neither \<open>python\<close> nor \<open>javascript\<close>, the review operation raises
  \<open>ValueError\<close> whatever the parser and the external model are, and sends no prompt:
  the list of requests is unchanged.
\<close>

theorem analyze_code_rejects_unsupported:
  assumes "dict_get language_map language language \<noteq> ''python''"
    and "dict_get language_map language language \<noteq> ''javascript''"
  shows "analyze_code parse list_set generate_content code language context w
     = (Inl (ValueError (''Unsupported language: '' @ dict_get language_map language language)), w)"
  using assms normalised_not_jsx[of language]
  by (simp add: analyze_code_def Let_def)

theorem analyze_code_rejects_unsupported_witness:
  "dict_get language_map ''rb'' ''rb'' \<noteq> ''python''
   \<and> dict_get language_map ''rb'' ''rb'' \<noteq> ''javascript''
   \<and> analyze_code sample_parse remdups (\<lambda>prompt. Inr sample_feedback) plain_source ''rb'' None
        \<lparr>requests = []\<rparr>
      = (Inl (ValueError ''Unsupported language: rb''), \<lparr>requests = []\<rparr>)"
proof -
  have a: "dict_get language_map ''rb'' ''rb'' \<noteq> ''python''"
    by (simp add: dict_get_def language_map_def)
  have b: "dict_get language_map ''rb'' ''rb'' \<noteq> ''javascript''"
    by (simp add: dict_get_def language_map_def)
  have c: "dict_get language_map ''rb'' ''rb'' = ''rb''"
    by (simp add: dict_get_def language_map_def)
  show ?thesis
    using a b analyze_code_rejects_unsupported[OF a b, of sample_parse remdups
        "\<lambda>prompt. Inr sample_feedback" plain_source None "\<lparr>requests = []\<rparr>"]
    by (simp add: c)
qed

section \<open>The formatting rule\<close>

lemma four_spaces: "replicate 4 CHR '' '' = ''    ''"
  by (simp add: eval_nat_numeral)

lemma fold_penalty:
  "fold (\<lambda>x (score::int). if P x then score - 2 else score) xs s
     = s - 2 * int (length (filter P xs))"
  by (induction xs arbitrary: s) simp_all

lemma check_formatting_count:
  "check_formatting code = max 0 (15 - 2 * int (length (filter penalised (split_nl code))))"
  by (simp add: check_formatting_def fold_penalty)

lemma strip_nonempty: "strip s \<noteq> [] \<longleftrightarrow> (\<exists>c \<in> set s. \<not> is_space c)"
proof -
  have "strip s \<noteq> [] \<longleftrightarrow> (\<exists>c \<in> set (dropWhile is_space s). \<not> is_space c)"
    by (simp add: strip_def dropWhile_eq_Nil_conv)
  also have "\<dots> \<longleftrightarrow> (\<exists>c \<in> set s. \<not> is_space c)"
  proof
    assume "\<exists>c \<in> set (dropWhile is_space s). \<not> is_space c"
    then show "\<exists>c \<in> set s. \<not> is_space c" by (meson set_dropWhileD)
  next
    assume "\<exists>c \<in> set s. \<not> is_space c"
    then have "dropWhile is_space s \<noteq> []" by (simp add: dropWhile_eq_Nil_conv)
    then have "hd (dropWhile is_space s) \<in> set (dropWhile is_space s)"
      and "\<not> is_space (hd (dropWhile is_space s))"
      by (simp_all add: hd_dropWhile)
    then show "\<exists>c \<in> set (dropWhile is_space s). \<not> is_space c" by blast
  qed
  finally show ?thesis .
qed

lemma penalised_iff:
  "penalised line \<longleftrightarrow>
     79 < length line \<or> ((\<exists>c \<in> set line. \<not> is_space c) \<and> take 4 line \<noteq> replicate 4 CHR '' '')"
  by (simp add: penalised_def strip_nonempty startswith_def)

lemma split_nl_nonempty: "split_nl s \<noteq> []"
  by (induction s) (simp_all split: list.split)

lemma split_nl_append: "split_nl (a @ newline # b) = split_nl a @ split_nl b"
proof (induction a)
  case Nil
  show ?case by simp
next
  case (Cons c a)
  obtain l ls where s: "split_nl a = l # ls"
    using split_nl_nonempty[of a] by (cases "split_nl a") auto
  show ?case using Cons s by simp
qed

lemma split_nl_line: "newline \<notin> set l \<Longrightarrow> split_nl l = [l]"
  by (induction l) auto

lemma check_formatting_append:
  assumes "penalised line" "newline \<notin> set line"
  shows "check_formatting (code @ [newline] @ line) = max 0 (check_formatting code - 2)"
  using assms by (simp add: check_formatting_count split_nl_append split_nl_line)

lemma check_formatting_insert:
  assumes "penalised line" "newline \<notin> set line"
  shows "check_formatting (a @ [newline] @ line @ [newline] @ b)
           = max 0 (check_formatting (a @ [newline] @ b) - 2)"
  using assms by (simp add: check_formatting_count split_nl_append split_nl_line)

text \<open>
  Claim C4, amended. The formatting score starts at 15 and loses 2, down to 0 at least,
  for each line that exceeds 79 characters, or has a character that is not white space
  and does not begin with four spaces; a line with more than four leading spaces
  is not penalised for its indentation. A text whose lines are all conforming scores
  15, and one more penalised line, at the end or in the middle, takes 2 from the score
  (floored at 0), so 13 after a conforming text.
\<close>

theorem check_formatting_penalties:
  "check_formatting code = max 0 (15 - 2 * int (length (filter penalised (split_nl code))))
   \<and> (penalised line \<longleftrightarrow>
        79 < length line
        \<or> ((\<exists>c \<in> set line. \<not> is_space c) \<and> take 4 line \<noteq> replicate 4 CHR '' ''))
   \<and> ((\<forall>l \<in> set (split_nl code). \<not> penalised l) \<longrightarrow> check_formatting code = 15)
   \<and> (penalised line \<and> newline \<notin> set line \<longrightarrow>
        check_formatting (code @ [newline] @ line) = max 0 (check_formatting code - 2)
        \<and> check_formatting (code @ [newline] @ line @ [newline] @ rest)
            = max 0 (check_formatting (code @ [newline] @ rest) - 2))
   \<and> ((\<forall>l \<in> set (split_nl code). \<not> penalised l) \<and> penalised line \<and> newline \<notin> set line
        \<longrightarrow> check_formatting (code @ [newline] @ line) = 13)"
proof -
  have conforming: "check_formatting code = 15" if "\<forall>l \<in> set (split_nl code). \<not> penalised l"
  proof -
    from that have "filter penalised (split_nl code) = []" by (simp add: filter_empty_conv)
    then show ?thesis by (simp add: check_formatting_count)
  qed
  show ?thesis
    using check_formatting_count[of code] penalised_iff[of line] conforming
      check_formatting_append[of line code] check_formatting_insert[of line code rest]
    by auto
qed

theorem check_formatting_penalties_witness:
  "split_nl ''    return x'' = [''    return x''] \<and> \<not> penalised ''    return x''
   \<and> penalised ''x = 1'' \<and> newline \<notin> set ''x = 1''
   \<and> check_formatting ''    return x'' = 15
   \<and> check_formatting (''    return x'' @ [newline] @ ''x = 1'') = 13"
proof -
  have a: "\<forall>l \<in> set (split_nl ''    return x''). \<not> penalised l"
    by (simp add: newline_def penalised_def startswith_def four_spaces)
  have b: "penalised ''x = 1''"
    by (simp add: penalised_def startswith_def strip_def is_space_def ord_def four_spaces)
  have c: "newline \<notin> set ''x = 1''"
    by (simp add: newline_def)
  have d: "split_nl ''    return x'' = [''    return x'']"
    by (simp add: newline_def)
  have e: "\<not> penalised ''    return x''"
    using a unfolding d by simp
  show ?thesis
    using a b c d e check_formatting_penalties[of "''    return x''" "''x = 1''" "[]"]
    by blast
qed

text \<open>
  Claim C4 as worded counts a line that begins with eight spaces as non-conforming,
  since it does not begin with exactly four. On such a line the rule scores 15 where
  the wording gives 13.
\<close>

theorem check_formatting_exactly_four_counterexample:
  "check_formatting ''        x'' = 15 \<and> spec_check_formatting ''        x'' = 13"
  by (simp add: check_formatting_def spec_check_formatting_def spec_nonconforming_def
      leading_spaces_def penalised_def startswith_def strip_def is_space_def ord_def
      newline_def four_spaces)

section \<open>The feedback extractor\<close>




































end
